theory Spec2Isabelle
  imports Main "HOL-Library.Word"
begin

unbundle bit_operations_syntax

section \<open>The operating system as seen by mbtool/util/copy.cpp\<close>

text \<open>
  copy.cpp works on paths and file descriptors through POSIX system calls. The kernel is
  not part of the repository, so it is an oracle here: a record of functions that give,
  for the n-th system call of the run and its arguments, the answer of the kernel. Nothing
  is assumed about the answers (another process may change the file system between any
  two calls), except for what the interface itself promises: \<open>read\<close> never returns more
  than the buffer holds, \<open>write\<close> never reports more than it was given, \<open>readlink\<close>
  truncates to the buffer, the xattr calls answer a size query when the buffer size is 0
  and ERANGE when the buffer is too small.

  The file-creation mask and \<open>errno\<close> are process state and are modelled as such. Every
  call is appended to a trace together with its result, so that what the code did is
  observable. Logging (LOGE, LOGW, LOGV, LOGD) is left out.
\<close>

type_synonym path = string
type_synonym mode_t = "32 word"

datatype errno = ENOENT | EEXIST | ENOTSUP | EINVAL | ERANGE | Errno nat

text \<open>\<open>struct stat\<close>: the fields copy.cpp reads. Device and inode numbers are only compared.\<close>

record stat =
  st_dev :: nat
  st_ino :: nat
  st_mode :: mode_t
  st_uid :: nat
  st_gid :: nat
  st_rdev :: nat

text \<open>The constants of \<open>sys/stat.h\<close> (Linux and bionic values; octal in the header).\<close>

definition S_IFMT :: mode_t where "S_IFMT = 0xF000"
definition S_IFSOCK :: mode_t where "S_IFSOCK = 0xC000"
definition S_IFLNK :: mode_t where "S_IFLNK = 0xA000"
definition S_IFREG :: mode_t where "S_IFREG = 0x8000"
definition S_IFBLK :: mode_t where "S_IFBLK = 0x6000"
definition S_IFDIR :: mode_t where "S_IFDIR = 0x4000"
definition S_IFCHR :: mode_t where "S_IFCHR = 0x2000"
definition S_IFIFO :: mode_t where "S_IFIFO = 0x1000"
definition S_ISUID :: mode_t where "S_ISUID = 0x800"
definition S_ISGID :: mode_t where "S_ISGID = 0x400"
definition S_ISVTX :: mode_t where "S_ISVTX = 0x200"
definition S_IRWXU :: mode_t where "S_IRWXU = 0x1C0"
definition S_IRWXG :: mode_t where "S_IRWXG = 0x38"
definition S_IRWXO :: mode_t where "S_IRWXO = 0x7"

definition S_ISLNK :: "mode_t \<Rightarrow> bool" where
  "S_ISLNK m = (m AND S_IFMT = S_IFLNK)"

definition S_ISDIR :: "mode_t \<Rightarrow> bool" where
  "S_ISDIR m = (m AND S_IFMT = S_IFDIR)"

datatype oflag = O_RDONLY | O_WRONLY | O_CREAT | O_EXCL | O_TRUNC

datatype call =
    Umask mode_t
  | Unlink path
  | Stat path
  | Lstat path
  | Open path "oflag set" mode_t
  | Close int
  | Read int nat
  | Write int string
  | Mkdir path mode_t
  | Mknod path mode_t nat
  | Mkfifo path mode_t
  | Symlink string path
  | Readlink path nat
  | Lchown path nat nat
  | Chmod path mode_t
  | Llistxattr path nat
  | Lgetxattr path string nat
  | Lsetxattr path string string

datatype ret = Failed errno | Done | Count nat | Bytes string | Meta stat | Fd int | Mask mode_t

type_synonym event = "call \<times> ret"

record kernel =
  k_unlink :: "nat \<Rightarrow> path \<Rightarrow> errno option"
  k_stat :: "nat \<Rightarrow> path \<Rightarrow> errno + stat"
  k_lstat :: "nat \<Rightarrow> path \<Rightarrow> errno + stat"
  k_open :: "nat \<Rightarrow> path \<Rightarrow> oflag set \<Rightarrow> mode_t \<Rightarrow> errno + nat"
  k_close :: "nat \<Rightarrow> int \<Rightarrow> errno option"
  k_read :: "nat \<Rightarrow> int \<Rightarrow> errno + string"
  k_write :: "nat \<Rightarrow> int \<Rightarrow> string \<Rightarrow> errno + nat"
  k_mkdir :: "nat \<Rightarrow> path \<Rightarrow> mode_t \<Rightarrow> errno option"
  k_mknod :: "nat \<Rightarrow> path \<Rightarrow> mode_t \<Rightarrow> nat \<Rightarrow> errno option"
  k_mkfifo :: "nat \<Rightarrow> path \<Rightarrow> mode_t \<Rightarrow> errno option"
  k_symlink :: "nat \<Rightarrow> string \<Rightarrow> path \<Rightarrow> errno option"
  k_readlink :: "nat \<Rightarrow> path \<Rightarrow> errno + string"
  k_lchown :: "nat \<Rightarrow> path \<Rightarrow> nat \<Rightarrow> nat \<Rightarrow> errno option"
  k_chmod :: "nat \<Rightarrow> path \<Rightarrow> mode_t \<Rightarrow> errno option"
  k_llistxattr :: "nat \<Rightarrow> path \<Rightarrow> errno + string"
  k_lgetxattr :: "nat \<Rightarrow> path \<Rightarrow> string \<Rightarrow> errno + string"
  k_lsetxattr :: "nat \<Rightarrow> path \<Rightarrow> string \<Rightarrow> string \<Rightarrow> errno option"

record world =
  os :: kernel
  w_umask :: mode_t
  w_errno :: errno
  trace :: "event list"

text \<open>The number of the next system call.\<close>

definition now :: "world \<Rightarrow> nat" where
  "now w = length (trace w)"

text \<open>A call and its result enter the trace; a failing call sets \<open>errno\<close>.\<close>

definition emit :: "call \<Rightarrow> ret \<Rightarrow> world \<Rightarrow> world" where
  "emit c r w =
     w\<lparr>w_errno := (case r of Failed e \<Rightarrow> e | _ \<Rightarrow> w_errno w), trace := trace w @ [(c, r)]\<rparr>"

text \<open>A call that returns 0 or -1.\<close>

definition status_call :: "call \<Rightarrow> errno option \<Rightarrow> world \<Rightarrow> (errno + unit) \<times> world" where
  "status_call c a w =
     (case a of
        Some e \<Rightarrow> (Inl e, emit c (Failed e) w)
      | None \<Rightarrow> (Inr (), emit c Done w))"

text \<open>\<open>umask\<close> always succeeds; the kernel keeps the nine permission bits.\<close>

definition sys_umask :: "mode_t \<Rightarrow> world \<Rightarrow> mode_t \<times> world" where
  "sys_umask m w = (w_umask w, emit (Umask m) (Mask (w_umask w)) (w\<lparr>w_umask := m AND 0x1FF\<rparr>))"

definition sys_unlink :: "path \<Rightarrow> world \<Rightarrow> (errno + unit) \<times> world" where
  "sys_unlink p w = status_call (Unlink p) (k_unlink (os w) (now w) p) w"

definition sys_stat :: "path \<Rightarrow> world \<Rightarrow> (errno + stat) \<times> world" where
  "sys_stat p w =
     (case k_stat (os w) (now w) p of
        Inl e \<Rightarrow> (Inl e, emit (Stat p) (Failed e) w)
      | Inr sb \<Rightarrow> (Inr sb, emit (Stat p) (Meta sb) w))"

definition sys_lstat :: "path \<Rightarrow> world \<Rightarrow> (errno + stat) \<times> world" where
  "sys_lstat p w =
     (case k_lstat (os w) (now w) p of
        Inl e \<Rightarrow> (Inl e, emit (Lstat p) (Failed e) w)
      | Inr sb \<Rightarrow> (Inr sb, emit (Lstat p) (Meta sb) w))"

definition sys_open :: "path \<Rightarrow> oflag set \<Rightarrow> mode_t \<Rightarrow> world \<Rightarrow> (errno + int) \<times> world" where
  "sys_open p fl m w =
     (case k_open (os w) (now w) p fl m of
        Inl e \<Rightarrow> (Inl e, emit (Open p fl m) (Failed e) w)
      | Inr fd \<Rightarrow> (Inr (int fd), emit (Open p fl m) (Fd (int fd)) w))"

definition sys_close :: "int \<Rightarrow> world \<Rightarrow> (errno + unit) \<times> world" where
  "sys_close fd w = status_call (Close fd) (k_close (os w) (now w) fd) w"

text \<open>\<open>read(fd, buf, n)\<close>: at most \<open>n\<close> bytes; the empty result is the return value 0.\<close>

definition sys_read :: "int \<Rightarrow> nat \<Rightarrow> world \<Rightarrow> (errno + string) \<times> world" where
  "sys_read fd n w =
     (case k_read (os w) (now w) fd of
        Inl e \<Rightarrow> (Inl e, emit (Read fd n) (Failed e) w)
      | Inr d \<Rightarrow> (Inr (take n d), emit (Read fd n) (Bytes (take n d)) w))"

text \<open>\<open>write(fd, buf, n)\<close>: the number of bytes accepted, at most \<open>n\<close>, possibly 0.\<close>

definition sys_write :: "int \<Rightarrow> string \<Rightarrow> world \<Rightarrow> (errno + nat) \<times> world" where
  "sys_write fd d w =
     (case k_write (os w) (now w) fd d of
        Inl e \<Rightarrow> (Inl e, emit (Write fd d) (Failed e) w)
      | Inr k \<Rightarrow> (Inr (min k (length d)), emit (Write fd d) (Count (min k (length d))) w))"

definition sys_mkdir :: "path \<Rightarrow> mode_t \<Rightarrow> world \<Rightarrow> (errno + unit) \<times> world" where
  "sys_mkdir p m w = status_call (Mkdir p m) (k_mkdir (os w) (now w) p m) w"

definition sys_mknod :: "path \<Rightarrow> mode_t \<Rightarrow> nat \<Rightarrow> world \<Rightarrow> (errno + unit) \<times> world" where
  "sys_mknod p m dev w = status_call (Mknod p m dev) (k_mknod (os w) (now w) p m dev) w"

definition sys_mkfifo :: "path \<Rightarrow> mode_t \<Rightarrow> world \<Rightarrow> (errno + unit) \<times> world" where
  "sys_mkfifo p m w = status_call (Mkfifo p m) (k_mkfifo (os w) (now w) p m) w"

definition sys_symlink :: "string \<Rightarrow> path \<Rightarrow> world \<Rightarrow> (errno + unit) \<times> world" where
  "sys_symlink t p w = status_call (Symlink t p) (k_symlink (os w) (now w) t p) w"

text \<open>
  \<open>readlink(path, buf, n)\<close>: the kernel's answer is the link's target at that moment; the
  call places its first \<open>n\<close> bytes in the buffer and returns their number.
\<close>

definition sys_readlink :: "path \<Rightarrow> nat \<Rightarrow> world \<Rightarrow> (errno + string) \<times> world" where
  "sys_readlink p n w =
     (case k_readlink (os w) (now w) p of
        Inl e \<Rightarrow> (Inl e, emit (Readlink p n) (Failed e) w)
      | Inr t \<Rightarrow> (Inr (take n t), emit (Readlink p n) (Bytes (take n t)) w))"

definition sys_lchown :: "path \<Rightarrow> nat \<Rightarrow> nat \<Rightarrow> world \<Rightarrow> (errno + unit) \<times> world" where
  "sys_lchown p u g w = status_call (Lchown p u g) (k_lchown (os w) (now w) p u g) w"

definition sys_chmod :: "path \<Rightarrow> mode_t \<Rightarrow> world \<Rightarrow> (errno + unit) \<times> world" where
  "sys_chmod p m w = status_call (Chmod p m) (k_chmod (os w) (now w) p m) w"

text \<open>
  \<open>llistxattr(path, buf, n)\<close> and \<open>lgetxattr(path, name, buf, n)\<close>: the kernel's answer is
  the whole list (NUL-terminated names) or the whole value. With \<open>n = 0\<close> the call returns
  the size and writes nothing; with a buffer that is too small it fails with ERANGE.
  The result is the size returned and the bytes written to the buffer.
\<close>

definition xattr_reply :: "call \<Rightarrow> nat \<Rightarrow> errno + string \<Rightarrow> world \<Rightarrow> (errno + nat \<times> string) \<times> world" where
  "xattr_reply c n a w =
     (case a of
        Inl e \<Rightarrow> (Inl e, emit c (Failed e) w)
      | Inr d \<Rightarrow>
          if n = 0 then (Inr (length d, []), emit c (Count (length d)) w)
          else if n < length d then (Inl ERANGE, emit c (Failed ERANGE) w)
          else (Inr (length d, d), emit c (Bytes d) w))"

definition sys_llistxattr :: "path \<Rightarrow> nat \<Rightarrow> world \<Rightarrow> (errno + nat \<times> string) \<times> world" where
  "sys_llistxattr p n w = xattr_reply (Llistxattr p n) n (k_llistxattr (os w) (now w) p) w"

definition sys_lgetxattr :: "path \<Rightarrow> string \<Rightarrow> nat \<Rightarrow> world \<Rightarrow> (errno + nat \<times> string) \<times> world" where
  "sys_lgetxattr p name n w =
     xattr_reply (Lgetxattr p name n) n (k_lgetxattr (os w) (now w) p name) w"

definition sys_lsetxattr :: "path \<Rightarrow> string \<Rightarrow> string \<Rightarrow> world \<Rightarrow> (errno + unit) \<times> world" where
  "sys_lsetxattr p name v w =
     status_call (Lsetxattr p name v) (k_lsetxattr (os w) (now w) p name v) w"

section \<open>copy\_data\_fd\<close>

text \<open>
  The inner \<open>do ... while (nread > 0)\<close> loop. \<open>out\<close> is the part of the buffer from
  \<open>out_ptr\<close> on that is still to be written, so \<open>nread\<close> is its length. A write that
  accepts nothing leaves the loop where it is: the loop need not end, hence the fuel.
\<close>

fun write_loop :: "nat \<Rightarrow> int \<Rightarrow> string \<Rightarrow> world \<Rightarrow> (bool \<times> world) option" where
  "write_loop 0 fd_target out w = None"
| "write_loop (Suc fuel) fd_target out w =
     (case sys_write fd_target out w of
        (Inl e, w1) \<Rightarrow> Some (False, w1)
      | (Inr nwritten, w1) \<Rightarrow>
          if length out - nwritten > 0 then write_loop fuel fd_target (drop nwritten out) w1
          else Some (True, w1))"

text \<open>
  The outer \<open>while ((nread = read(...)) > 0)\<close> loop with its exits: \<open>nread == 0\<close> returns
  true, a negative \<open>nread\<close> and the \<open>goto error\<close> of a failed write return false.
\<close>

fun copy_data_fd :: "nat \<Rightarrow> int \<Rightarrow> int \<Rightarrow> world \<Rightarrow> (bool \<times> world) option" where
  "copy_data_fd 0 fd_source fd_target w = None"
| "copy_data_fd (Suc fuel) fd_source fd_target w =
     (case sys_read fd_source 10240 w of
        (Inl e, w1) \<Rightarrow> Some (False, w1)
      | (Inr buf, w1) \<Rightarrow>
          if length buf > 0 then
            (case write_loop fuel fd_target buf w1 of
               None \<Rightarrow> None
             | Some (False, w2) \<Rightarrow> Some (False, w2)
             | Some (True, w2) \<Rightarrow> copy_data_fd fuel fd_source fd_target w2)
          else Some (True, w1))"

section \<open>copy\_data\<close>

text \<open>
  The \<open>error:\<close> block of \<open>copy_data\<close>: closes the descriptors that are not negative and
  restores \<open>errno\<close>.
\<close>

definition copy_data_error :: "int \<Rightarrow> int \<Rightarrow> world \<Rightarrow> bool \<times> world" where
  "copy_data_error fd_source fd_target w =
     (let saved_errno = w_errno w;
          w1 = (if fd_source \<ge> 0 then snd (sys_close fd_source w) else w);
          w2 = (if fd_target \<ge> 0 then snd (sys_close fd_target w1) else w1)
      in (False, w2\<lparr>w_errno := saved_errno\<rparr>))"

definition copy_data :: "nat \<Rightarrow> path \<Rightarrow> path \<Rightarrow> world \<Rightarrow> (bool \<times> world) option" where
  "copy_data fuel source target w =
     (case sys_open source {O_RDONLY} 0 w of
        (Inl e, w1) \<Rightarrow> Some (copy_data_error (-1) (-1) w1)
      | (Inr fd_source, w1) \<Rightarrow>
          (case sys_open target {O_WRONLY, O_CREAT, O_EXCL} 0x1B6 w1 of
             (Inl e, w2) \<Rightarrow> Some (copy_data_error fd_source (-1) w2)
           | (Inr fd_target, w2) \<Rightarrow>
               (case copy_data_fd fuel fd_source fd_target w2 of
                  None \<Rightarrow> None
                | Some (False, w3) \<Rightarrow> Some (copy_data_error fd_source fd_target w3)
                | Some (True, w3) \<Rightarrow>
                    (case sys_close fd_source w3 of
                       (Inl e, w4) \<Rightarrow> Some (copy_data_error (-1) fd_target w4)
                     | (Inr u, w4) \<Rightarrow>
                         (case sys_close fd_target w4 of
                            (Inl e, w5) \<Rightarrow> Some (copy_data_error fd_source (-1) w5)
                          | (Inr u', w5) \<Rightarrow> Some (True, w5))))))"

section \<open>copy\_xattrs\<close>

text \<open>
  The name list is a sequence of NUL-terminated names. \<open>c_strings\<close> cuts the bytes
  between \<open>names.data()\<close> and \<open>end_names\<close> at each NUL, as the \<open>for\<close> loop does with
  \<open>strchr(name, 0) + 1\<close>; \<open>terminated\<close> says that the last name ends with a NUL, so that
  the loop's pointer meets \<open>end_names\<close>.
\<close>

fun c_strings :: "string \<Rightarrow> string \<Rightarrow> string list" where
  "c_strings [] cur = (if cur = [] then [] else [cur])"
| "c_strings (c # cs) cur =
     (if c = CHR 0x00 then cur # c_strings cs [] else c_strings cs (cur @ [c]))"

definition terminated :: "string \<Rightarrow> bool" where
  "terminated buf = (buf = [] \<or> last buf = CHR 0x00)"

text \<open>
  The body of the \<open>for\<close> loop, for the names still to visit. The result \<open>None\<close> stands for
  undefined behaviour of the C++ code:
  \<^item> the loop's pointer steps over \<open>end_names\<close> when the list does not end with a NUL;
  \<^item> the second \<open>lgetxattr\<close> is called with the size the first one returned; when that
    was 0 the second is a size query again, and a positive answer makes \<open>lsetxattr\<close>
    read that many bytes from an empty vector.
\<close>

fun xattr_loop :: "path \<Rightarrow> path \<Rightarrow> bool \<Rightarrow> string list \<Rightarrow> world \<Rightarrow> (bool \<times> world) option" where
  "xattr_loop source target ends [] w = (if ends then Some (True, w) else None)"
| "xattr_loop source target ends (name # rest) w =
     (if name = [] then xattr_loop source target ends rest w
      else
        (case sys_lgetxattr source name 0 w of
           (Inl e, w1) \<Rightarrow> xattr_loop source target ends rest w1
         | (Inr (sz, u), w1) \<Rightarrow>
             (case sys_lgetxattr source name sz w1 of
                (Inl e, w2) \<Rightarrow> xattr_loop source target ends rest w2
              | (Inr (sz2, val), w2) \<Rightarrow>
                  if length val < sz2 then None
                  else
                    (case sys_lsetxattr target name (take sz2 val) w2 of
                       (Inl e, w3) \<Rightarrow>
                         if e = ENOTSUP then Some (True, w3) else Some (False, w3)
                     | (Inr u', w3) \<Rightarrow> xattr_loop source target ends rest w3))))"

text \<open>
  \<open>copy_xattrs\<close>. As for the values, a first size of 0 makes the second \<open>llistxattr\<close> a
  size query; a positive answer then lets \<open>names[size] = 0\<close> write outside the one-byte
  vector: \<open>None\<close>.
\<close>

definition copy_xattrs :: "path \<Rightarrow> path \<Rightarrow> world \<Rightarrow> (bool \<times> world) option" where
  "copy_xattrs source target w =
     (case sys_llistxattr source 0 w of
        (Inl e, w1) \<Rightarrow> if e = ENOTSUP then Some (True, w1) else Some (False, w1)
      | (Inr (sz, u), w1) \<Rightarrow>
          (case sys_llistxattr source sz w1 of
             (Inl e, w2) \<Rightarrow> Some (False, w2)
           | (Inr (sz2, names), w2) \<Rightarrow>
               if length names < sz2 then None
               else xattr_loop source target (terminated (take sz2 names))
                      (c_strings (take sz2 names) []) w2))"

section \<open>copy\_stat\<close>

definition copy_stat :: "path \<Rightarrow> path \<Rightarrow> world \<Rightarrow> bool \<times> world" where
  "copy_stat source target w =
     (case sys_lstat source w of
        (Inl e, w1) \<Rightarrow> (False, w1)
      | (Inr sb, w1) \<Rightarrow>
          (case sys_lchown target (st_uid sb) (st_gid sb) w1 of
             (Inl e, w2) \<Rightarrow> (False, w2)
           | (Inr u, w2) \<Rightarrow>
               if \<not> S_ISLNK (st_mode sb) then
                 (case sys_chmod target
                         (st_mode sb AND (S_ISUID OR S_ISGID OR S_ISVTX
                                          OR S_IRWXU OR S_IRWXG OR S_IRWXO)) w2 of
                    (Inl e, w3) \<Rightarrow> (False, w3)
                  | (Inr u', w3) \<Rightarrow> (True, w3))
               else (True, w2)))"

section \<open>readlink2\<close>

text \<open>
  The \<open>for (;;)\<close> loop; \<open>sz\<close> is \<open>buf.size()\<close>. The vector's size is a natural number
  here: it doubles from 64, and a vector of \<open>2 ^ 31\<close> (or \<open>2 ^ 63\<close>) bytes, which the
  shift would need before it could wrap, cannot be allocated. The loop ends only when the
  kernel returns fewer bytes than asked for: fuel. On success the result is the C string
  in the buffer after \<open>buf[len] = 0\<close>.
\<close>

fun readlink2_loop :: "nat \<Rightarrow> path \<Rightarrow> nat \<Rightarrow> world \<Rightarrow> (string option \<times> world) option" where
  "readlink2_loop 0 p sz w = None"
| "readlink2_loop (Suc fuel) p sz w =
     (case sys_readlink p (sz - 1) w of
        (Inl e, w1) \<Rightarrow> Some (None, w1)
      | (Inr buf, w1) \<Rightarrow>
          if length buf = sz - 1 then readlink2_loop fuel p (2 * sz) w1
          else Some (Some (takeWhile (\<lambda>c. c \<noteq> CHR 0x00) buf), w1))"

definition readlink2 :: "nat \<Rightarrow> path \<Rightarrow> world \<Rightarrow> (string option \<times> world) option" where
  "readlink2 fuel p w = readlink2_loop fuel p 64 w"

section \<open>copy\_file\<close>

text \<open>
  Modelled from the spec: the copy flags of \<open>util/copy.h\<close>, which is not among the
  sources. The spec (CopyFlags) gives them as a bit set of four options; \<open>flags & F\<close> is
  membership.
\<close>

datatype copy_flag =
  MB_COPY_ATTRIBUTES | MB_COPY_XATTRS | MB_COPY_EXCLUDE_TOP_LEVEL | MB_COPY_FOLLOW_SYMLINKS

text \<open>The two \<open>if\<close>s after the \<open>switch\<close>.\<close>

definition copy_file_attrs :: "path \<Rightarrow> path \<Rightarrow> copy_flag set \<Rightarrow> world \<Rightarrow> (bool \<times> world) option" where
  "copy_file_attrs source target flags w =
     (case (if MB_COPY_ATTRIBUTES \<in> flags then copy_stat source target w else (True, w)) of
        (False, w1) \<Rightarrow> Some (False, w1)
      | (True, w1) \<Rightarrow>
          if MB_COPY_XATTRS \<in> flags then copy_xattrs source target w1 else Some (True, w1))"

text \<open>A call that must succeed: \<open>if (call < 0) goto error\<close>.\<close>

definition must :: "(errno + unit) \<times> world \<Rightarrow> (bool \<times> world) option" where
  "must r = (case r of (Inl e, w1) \<Rightarrow> Some (False, w1) | (Inr u, w1) \<Rightarrow> Some (True, w1))"

text \<open>
  The \<open>switch (sb.st_mode & S_IFMT)\<close>; the result is false where the code jumps to
  \<open>error\<close>. A symlink that is followed falls through to the regular file's case.
\<close>

definition copy_file_switch :: "nat \<Rightarrow> path \<Rightarrow> path \<Rightarrow> copy_flag set \<Rightarrow> stat \<Rightarrow> world \<Rightarrow> (bool \<times> world) option" where
  "copy_file_switch fuel source target flags sb w =
     (let fmt = st_mode sb AND S_IFMT in
      if fmt = S_IFBLK then must (sys_mknod target (S_IFBLK OR S_IRWXU) (st_rdev sb) w)
      else if fmt = S_IFCHR then must (sys_mknod target (S_IFCHR OR S_IRWXU) (st_rdev sb) w)
      else if fmt = S_IFIFO then must (sys_mkfifo target S_IRWXU w)
      else if fmt = S_IFLNK \<and> MB_COPY_FOLLOW_SYMLINKS \<notin> flags then
        (case readlink2 fuel source w of
           None \<Rightarrow> None
         | Some (None, w1) \<Rightarrow> Some (False, w1)
         | Some (Some symlink_path, w1) \<Rightarrow> must (sys_symlink symlink_path target w1))
      else if fmt = S_IFLNK \<or> fmt = S_IFREG then copy_data fuel source target w
      else if fmt = S_IFSOCK then Some (False, w\<lparr>w_errno := EINVAL\<rparr>)
      else if fmt = S_IFDIR then Some (False, w\<lparr>w_errno := EINVAL\<rparr>)
      else Some (True, w))"

text \<open>What \<open>copy_file\<close> does between \<open>umask(0)\<close> and \<open>umask(old_umask)\<close>.\<close>

definition copy_file_body :: "nat \<Rightarrow> path \<Rightarrow> path \<Rightarrow> copy_flag set \<Rightarrow> world \<Rightarrow> (bool \<times> world) option" where
  "copy_file_body fuel source target flags w =
     (case sys_unlink target w of
        (r, w1) \<Rightarrow>
          if r \<noteq> Inr () \<and> w_errno w1 \<noteq> ENOENT then Some (False, w1)
          else
            (case (if MB_COPY_FOLLOW_SYMLINKS \<in> flags then sys_stat source w1
                   else sys_lstat source w1) of
               (Inl e, w2) \<Rightarrow> Some (False, w2)
             | (Inr sb, w2) \<Rightarrow>
                 (case copy_file_switch fuel source target flags sb w2 of
                    None \<Rightarrow> None
                  | Some (False, w3) \<Rightarrow> Some (False, w3)
                  | Some (True, w3) \<Rightarrow> copy_file_attrs source target flags w3)))"

definition copy_file :: "nat \<Rightarrow> path \<Rightarrow> path \<Rightarrow> copy_flag set \<Rightarrow> world \<Rightarrow> (bool \<times> world) option" where
  "copy_file fuel source target flags w =
     (case sys_umask 0 w of
        (old_umask, w1) \<Rightarrow>
          (case copy_file_body fuel source target flags w1 of
             None \<Rightarrow> None
           | Some (r, w2) \<Rightarrow> Some (r, snd (sys_umask old_umask w2))))"

section \<open>RecursiveCopier\<close>

text \<open>
  \<open>FTSENT\<close>, the entry \<open>fts_read\<close> gives for a node: the fields the copier reads.
\<close>

record ftsent =
  fts_path :: string
  fts_accpath :: string
  fts_name :: string
  fts_statp :: stat

text \<open>
  \<open>fmt::format\<close> belongs to the cppformat library: a message is kept as its format
  string and its arguments.
\<close>

datatype fmt_arg = Str string | Strerror errno

type_synonym message = "string \<times> fmt_arg list"

text \<open>
  Modelled from the spec: the \<open>Action\<close> flags of \<open>util/fts.h\<close>, which is not among the
  sources. The spec (section 6) gives the status of a hook as OK, or FAIL, SKIP and STOP
  as bit flags that combine; a status is the set of its flags and \<open>FTS_OK\<close> is the empty
  set.
\<close>

datatype action_flag = FTS_Fail | FTS_Skip | FTS_Stop

type_synonym action = "action_flag set"

definition FTS_OK :: action where
  "FTS_OK = {}"

text \<open>
  The members of \<open>RecursiveCopier\<close> and those of its base class \<open>FTSWrapper\<close> that the
  hooks use (\<open>_path\<close>, \<open>_error_msg\<close>, \<open>_root\<close>, \<open>_curr\<close>); the leading underscore of the
  source's names is written \<open>c_\<close>.
\<close>

record copier =
  c_path :: string
  c_error_msg :: message
  c_root :: ftsent
  c_curr :: ftsent
  c_copyflags :: "copy_flag set"
  c_target :: string
  sb_target :: stat
  c_curtgtpath :: string

definition on_pre_execute :: "copier \<Rightarrow> world \<Rightarrow> bool \<times> copier \<times> world" where
  "on_pre_execute c w =
     (if MB_COPY_FOLLOW_SYMLINKS \<in> c_copyflags c then
        (False, c\<lparr>c_error_msg :=
           (''MB_COPY_FOLLOW_SYMLINKS not allowed for recursive copies'', [])\<rparr>, w)
      else
        (case sys_mkdir (c_target c) (S_IRWXU OR S_IRWXG OR S_IRWXO) w of
           (r, w1) \<Rightarrow>
             if r \<noteq> Inr () \<and> w_errno w1 \<noteq> EEXIST then
               (False, c\<lparr>c_error_msg := (''%s: Failed to create directory: %s'',
                   [Str (c_target c), Strerror (w_errno w1)])\<rparr>, w1)
             else
               (case sys_stat (c_target c) w1 of
                  (Inl e, w2) \<Rightarrow>
                    (False, c\<lparr>c_error_msg := (''%s: Failed to stat: %s'',
                       [Str (c_target c), Strerror (w_errno w2)])\<rparr>, w2)
                | (Inr sb, w2) \<Rightarrow>
                    if \<not> S_ISDIR (st_mode sb) then
                      (False, c\<lparr>sb_target := sb, c_error_msg :=
                         (''%s: Target exists but is not a directory'', [Str (c_target c)])\<rparr>, w2)
                    else (True, c\<lparr>sb_target := sb\<rparr>, w2))))"

text \<open>
  \<open>on_changed_path\<close> makes no system call. The result \<open>None\<close> stands for undefined
  behaviour: \<open>_curr->fts_path + _path.size()\<close> points outside the string when
  \<open>fts_path\<close> is shorter than \<open>_path\<close>, and \<open>back()\<close> is called on an empty string when
  \<open>_target\<close> is empty. \<open>*relpath\<close> is the first character of \<open>relpath\<close>, or the
  terminating NUL.
\<close>

definition on_changed_path :: "copier \<Rightarrow> (action \<times> copier) option" where
  "on_changed_path c =
     (if st_dev (sb_target c) = st_dev (fts_statp (c_curr c))
         \<and> st_ino (sb_target c) = st_ino (fts_statp (c_curr c)) then
        Some ({FTS_Fail} \<union> {FTS_Stop},
              c\<lparr>c_error_msg := (''%s: Cannot copy on top of itself'', [Str (fts_path (c_curr c))])\<rparr>)
      else if length (fts_path (c_curr c)) < length (c_path c) \<or> c_target c = [] then None
      else
        (let relpath = drop (length (c_path c)) (fts_path (c_curr c));
             t1 = c_target c;
             t2 = (if MB_COPY_EXCLUDE_TOP_LEVEL \<notin> c_copyflags c then
                     (if last t1 \<noteq> CHR ''/'' then t1 @ ''/'' else t1) @ fts_name (c_root c)
                   else t1);
             t3 = (if last t2 \<noteq> CHR ''/'' \<and> relpath \<noteq> [] \<and> hd relpath \<noteq> CHR ''/''
                   then t2 @ ''/'' else t2)
         in Some (FTS_OK, c\<lparr>c_curtgtpath := t3 @ relpath\<rparr>)))"

definition remove_existing_file :: "copier \<Rightarrow> world \<Rightarrow> bool \<times> copier \<times> world" where
  "remove_existing_file c w =
     (case sys_unlink (c_curtgtpath c) w of
        (r, w1) \<Rightarrow>
          if r \<noteq> Inr () \<and> w_errno w1 \<noteq> ENOENT then
            (False, c\<lparr>c_error_msg := (''%s: Failed to remove old path: %s'',
                [Str (c_curtgtpath c), Strerror (w_errno w1)])\<rparr>, w1)
          else (True, c, w1))"

definition cp_attrs :: "copier \<Rightarrow> world \<Rightarrow> bool \<times> copier \<times> world" where
  "cp_attrs c w =
     (if MB_COPY_ATTRIBUTES \<in> c_copyflags c then
        (case copy_stat (fts_accpath (c_curr c)) (c_curtgtpath c) w of
           (False, w1) \<Rightarrow>
             (False, c\<lparr>c_error_msg := (''%s: Failed to copy attributes: %s'',
                 [Str (c_curtgtpath c), Strerror (w_errno w1)])\<rparr>, w1)
         | (True, w1) \<Rightarrow> (True, c, w1))
      else (True, c, w))"

definition cp_xattrs :: "copier \<Rightarrow> world \<Rightarrow> (bool \<times> copier \<times> world) option" where
  "cp_xattrs c w =
     (if MB_COPY_XATTRS \<in> c_copyflags c then
        (case copy_xattrs (fts_accpath (c_curr c)) (c_curtgtpath c) w of
           None \<Rightarrow> None
         | Some (False, w1) \<Rightarrow>
             Some (False, c\<lparr>c_error_msg := (''%s: Failed to copy xattrs: %s'',
                 [Str (c_curtgtpath c), Strerror (w_errno w1)])\<rparr>, w1)
         | Some (True, w1) \<Rightarrow> Some (True, c, w1))
      else Some (True, c, w))"

text \<open>
  The end of every hook that creates an entry: \<open>cp_attrs\<close>, then \<open>cp_xattrs\<close>, each
  returning \<open>FTS_Fail\<close> at once when it fails.
\<close>

definition cp_both :: "copier \<Rightarrow> world \<Rightarrow> (action \<times> copier \<times> world) option" where
  "cp_both c w =
     (case cp_attrs c w of
        (False, c1, w1) \<Rightarrow> Some ({FTS_Fail}, c1, w1)
      | (True, c1, w1) \<Rightarrow>
          (case cp_xattrs c1 w1 of
             None \<Rightarrow> None
           | Some (False, c2, w2) \<Rightarrow> Some ({FTS_Fail}, c2, w2)
           | Some (True, c2, w2) \<Rightarrow> Some (FTS_OK, c2, w2)))"

text \<open>
  \<open>on_reached_directory_pre\<close> sets \<open>skip\<close> exactly where it clears \<open>success\<close>. This is
  what it does once \<open>skip\<close> is set: both attribute copies, whatever the first returns,
  and the status \<open>FTS_Skip | FTS_Fail\<close>.
\<close>

definition skip_directory :: "copier \<Rightarrow> world \<Rightarrow> (action \<times> copier \<times> world) option" where
  "skip_directory c w =
     (case cp_attrs c w of
        (a, c1, w1) \<Rightarrow>
          (case cp_xattrs c1 w1 of
             None \<Rightarrow> None
           | Some (x, c2, w2) \<Rightarrow> Some ({FTS_Skip} \<union> {FTS_Fail}, c2, w2)))"

text \<open>\<open>stat\<close> is only called when \<open>mkdir\<close> succeeded or failed with EEXIST.\<close>

definition on_reached_directory_pre :: "copier \<Rightarrow> world \<Rightarrow> (action \<times> copier \<times> world) option" where
  "on_reached_directory_pre c w =
     (case sys_mkdir (c_curtgtpath c) (S_IRWXU OR S_IRWXG OR S_IRWXO) w of
        (r, w1) \<Rightarrow>
          if r \<noteq> Inr () \<and> w_errno w1 \<noteq> EEXIST then
            skip_directory
              (c\<lparr>c_error_msg := (''%s: Failed to create directory: %s'',
                  [Str (c_curtgtpath c), Strerror (w_errno w1)])\<rparr>) w1
          else
            (case sys_stat (c_curtgtpath c) w1 of
               (Inl e, w2) \<Rightarrow> Some ({} \<union> FTS_OK, c, w2)
             | (Inr sb, w2) \<Rightarrow>
                 if \<not> S_ISDIR (st_mode sb) then
                   skip_directory
                     (c\<lparr>c_error_msg := (''%s: Exists but is not a directory'',
                         [Str (c_curtgtpath c)])\<rparr>) w2
                 else Some ({} \<union> FTS_OK, c, w2)))"

definition on_reached_directory_post :: "copier \<Rightarrow> world \<Rightarrow> (action \<times> copier \<times> world) option" where
  "on_reached_directory_post c w = cp_both c w"

definition on_reached_file :: "nat \<Rightarrow> copier \<Rightarrow> world \<Rightarrow> (action \<times> copier \<times> world) option" where
  "on_reached_file fuel c w =
     (case remove_existing_file c w of
        (False, c1, w1) \<Rightarrow> Some ({FTS_Fail}, c1, w1)
      | (True, c1, w1) \<Rightarrow>
          (case copy_data fuel (fts_accpath (c_curr c1)) (c_curtgtpath c1) w1 of
             None \<Rightarrow> None
           | Some (False, w2) \<Rightarrow>
               Some ({FTS_Fail}, c1\<lparr>c_error_msg := (''%s: Failed to copy data: %s'',
                   [Str (c_curtgtpath c1), Strerror (w_errno w2)])\<rparr>, w2)
           | Some (True, w2) \<Rightarrow> cp_both c1 w2))"

definition on_reached_symlink :: "nat \<Rightarrow> copier \<Rightarrow> world \<Rightarrow> (action \<times> copier \<times> world) option" where
  "on_reached_symlink fuel c w =
     (case remove_existing_file c w of
        (False, c1, w1) \<Rightarrow> Some ({FTS_Fail}, c1, w1)
      | (True, c1, w1) \<Rightarrow>
          (case readlink2 fuel (fts_accpath (c_curr c1)) w1 of
             None \<Rightarrow> None
           | Some (None, w2) \<Rightarrow>
               Some ({FTS_Fail}, c1\<lparr>c_error_msg := (''%s: Failed to read symlink path: %s'',
                   [Str (fts_accpath (c_curr c1)), Strerror (w_errno w2)])\<rparr>, w2)
           | Some (Some symlink_path, w2) \<Rightarrow>
               (case sys_symlink symlink_path (c_curtgtpath c1) w2 of
                  (Inl e, w3) \<Rightarrow>
                    Some ({FTS_Fail}, c1\<lparr>c_error_msg := (''%s: Failed to create symlink: %s'',
                        [Str (c_curtgtpath c1), Strerror (w_errno w3)])\<rparr>, w3)
                | (Inr u, w3) \<Rightarrow> cp_both c1 w3)))"

text \<open>
  \<open>on_reached_block_device\<close>, \<open>on_reached_character_device\<close> and \<open>on_reached_fifo\<close>
  differ in the call that creates the node and in the message.
\<close>

definition create_node :: "(errno + unit) \<times> world \<Rightarrow> string \<Rightarrow> copier \<Rightarrow> (action \<times> copier \<times> world) option" where
  "create_node r what c1 =
     (case r of
        (Inl e, w2) \<Rightarrow>
          Some ({FTS_Fail}, c1\<lparr>c_error_msg := (what,
              [Str (c_curtgtpath c1), Strerror (w_errno w2)])\<rparr>, w2)
      | (Inr u, w2) \<Rightarrow> cp_both c1 w2)"

definition on_reached_block_device :: "copier \<Rightarrow> world \<Rightarrow> (action \<times> copier \<times> world) option" where
  "on_reached_block_device c w =
     (case remove_existing_file c w of
        (False, c1, w1) \<Rightarrow> Some ({FTS_Fail}, c1, w1)
      | (True, c1, w1) \<Rightarrow>
          create_node (sys_mknod (c_curtgtpath c1) (S_IFBLK OR S_IRWXU)
                         (st_rdev (fts_statp (c_curr c1))) w1)
            ''%s: Failed to create block device: %s'' c1)"

definition on_reached_character_device :: "copier \<Rightarrow> world \<Rightarrow> (action \<times> copier \<times> world) option" where
  "on_reached_character_device c w =
     (case remove_existing_file c w of
        (False, c1, w1) \<Rightarrow> Some ({FTS_Fail}, c1, w1)
      | (True, c1, w1) \<Rightarrow>
          create_node (sys_mknod (c_curtgtpath c1) (S_IFCHR OR S_IRWXU)
                         (st_rdev (fts_statp (c_curr c1))) w1)
            ''%s: Failed to create character device: %s'' c1)"

definition on_reached_fifo :: "copier \<Rightarrow> world \<Rightarrow> (action \<times> copier \<times> world) option" where
  "on_reached_fifo c w =
     (case remove_existing_file c w of
        (False, c1, w1) \<Rightarrow> Some ({FTS_Fail}, c1, w1)
      | (True, c1, w1) \<Rightarrow>
          create_node (sys_mkfifo (c_curtgtpath c1) S_IRWXU w1)
            ''%s: Failed to create FIFO pipe: %s'' c1)"

definition on_reached_socket :: "copier \<Rightarrow> world \<Rightarrow> (action \<times> copier \<times> world) option" where
  "on_reached_socket c w = Some ({FTS_Skip}, c, w)"

section \<open>The traversal engine and copy\_dir\<close>

text \<open>
  What \<open>fts_read\<close> reports for the source: a node with its entry and, for a directory,
  the nodes below it.
\<close>

datatype ftree = FNode ftsent "ftree list"

datatype hook =
    Directory_pre | Directory_post | Regular_file | Symbolic_link
  | Block_device | Character_device | Fifo | Socket | Other

text \<open>The state of a walk: the copier, the result so far, and the hooks called so far.\<close>

record walker =
  cop :: copier
  ok :: bool
  visited :: "(hook \<times> ftsent) list"

text \<open>
  Modelled from the spec: how \<open>FTSWrapper::run\<close> (\<open>util/fts.cpp\<close>, not among the
  sources) picks the hook of a node. The spec (section 3, FileKind) derives the kind from
  the node's own metadata.
\<close>

definition hook_of :: "ftsent \<Rightarrow> hook" where
  "hook_of e =
     (let fmt = st_mode (fts_statp e) AND S_IFMT in
      if fmt = S_IFDIR then Directory_pre
      else if fmt = S_IFREG then Regular_file
      else if fmt = S_IFLNK then Symbolic_link
      else if fmt = S_IFBLK then Block_device
      else if fmt = S_IFCHR then Character_device
      else if fmt = S_IFIFO then Fifo
      else if fmt = S_IFSOCK then Socket
      else Other)"

definition call_hook :: "nat \<Rightarrow> hook \<Rightarrow> copier \<Rightarrow> world \<Rightarrow> (action \<times> copier \<times> world) option" where
  "call_hook fuel h c w =
     (case h of
        Directory_pre \<Rightarrow> on_reached_directory_pre c w
      | Directory_post \<Rightarrow> on_reached_directory_post c w
      | Regular_file \<Rightarrow> on_reached_file fuel c w
      | Symbolic_link \<Rightarrow> on_reached_symlink fuel c w
      | Block_device \<Rightarrow> on_reached_block_device c w
      | Character_device \<Rightarrow> on_reached_character_device c w
      | Fifo \<Rightarrow> on_reached_fifo c w
      | Socket \<Rightarrow> on_reached_socket c w
      | Other \<Rightarrow> Some (FTS_OK, c, w))"

text \<open>
  Modelled from the spec: one visit of \<open>FTSWrapper::run\<close>. The spec (section 6):
  \<open>on_changed_path\<close> is called once per visited node and returns OK, fail or stop; then
  the hook of the node's kind is called; FAIL records the failure and the walk goes on,
  STOP aborts the whole walk. The result is the status of the visit.
\<close>

definition visit :: "nat \<Rightarrow> hook \<Rightarrow> ftsent \<Rightarrow> walker \<Rightarrow> world \<Rightarrow> (action \<times> walker \<times> world) option" where
  "visit fuel h e st w =
     (case on_changed_path ((cop st)\<lparr>c_curr := e\<rparr>) of
        None \<Rightarrow> None
      | Some (a, c1) \<Rightarrow>
          if a \<noteq> FTS_OK then Some (a, st\<lparr>cop := c1, ok := ok st \<and> FTS_Fail \<notin> a\<rparr>, w)
          else
            (case call_hook fuel h c1 w of
               None \<Rightarrow> None
             | Some (b, c2, w2) \<Rightarrow>
                 Some (b, st\<lparr>cop := c2, ok := ok st \<and> FTS_Fail \<notin> b,
                              visited := visited st @ [(h, e)]\<rparr>, w2)))"

text \<open>
  Modelled from the spec: the depth-first walk of \<open>FTSWrapper::run\<close>. A directory is
  visited before and after the nodes below it; SKIP on the first visit leaves out the
  nodes below and the second visit; STOP ends the walk. The first component of the result
  says that the walk was stopped.
\<close>

fun walk :: "nat \<Rightarrow> ftree \<Rightarrow> walker \<Rightarrow> world \<Rightarrow> (bool \<times> walker \<times> world) option"
  and walk_list :: "nat \<Rightarrow> ftree list \<Rightarrow> walker \<Rightarrow> world \<Rightarrow> (bool \<times> walker \<times> world) option" where
  "walk fuel (FNode e below) st w =
     (case visit fuel (hook_of e) e st w of
        None \<Rightarrow> None
      | Some (a, st1, w1) \<Rightarrow>
          if FTS_Stop \<in> a then Some (True, st1, w1)
          else if FTS_Skip \<in> a \<or> hook_of e \<noteq> Directory_pre then Some (False, st1, w1)
          else
            (case walk_list fuel below st1 w1 of
               None \<Rightarrow> None
             | Some (True, st2, w2) \<Rightarrow> Some (True, st2, w2)
             | Some (False, st2, w2) \<Rightarrow>
                 (case visit fuel Directory_post e st2 w2 of
                    None \<Rightarrow> None
                  | Some (b, st3, w3) \<Rightarrow> Some (FTS_Stop \<in> b, st3, w3))))"
| "walk_list fuel [] st w = Some (False, st, w)"
| "walk_list fuel (t # ts) st w =
     (case walk fuel t st w of
        None \<Rightarrow> None
      | Some (True, st1, w1) \<Rightarrow> Some (True, st1, w1)
      | Some (False, st1, w1) \<Rightarrow> walk_list fuel ts st1 w1)"

definition root_entry :: "ftree \<Rightarrow> ftsent" where
  "root_entry t = (case t of FNode e below \<Rightarrow> e)"

text \<open>
  Modelled from the spec: \<open>FTSWrapper::run\<close>. \<open>on_pre_execute\<close> can abort with failure
  before the walk starts; the result of the run is false when a hook reported FAIL.
\<close>

definition run :: "nat \<Rightarrow> ftree \<Rightarrow> copier \<Rightarrow> world \<Rightarrow> (bool \<times> walker \<times> world) option" where
  "run fuel t c w =
     (case on_pre_execute c w of
        (False, c1, w1) \<Rightarrow> Some (False, \<lparr>cop = c1, ok = False, visited = []\<rparr>, w1)
      | (True, c1, w1) \<Rightarrow>
          (case walk fuel t \<lparr>cop = c1\<lparr>c_root := root_entry t\<rparr>, ok = True, visited = []\<rparr> w1 of
             None \<Rightarrow> None
           | Some (stopped, st, w2) \<Rightarrow> Some (ok st, st, w2)))"

text \<open>
  The constructor \<open>RecursiveCopier(path, target, copyflags)\<close>. \<open>sb_target\<close>, \<open>_root\<close>
  and \<open>_curr\<close> have no value yet; they are written before they are read.
\<close>

definition no_stat :: stat where
  "no_stat = \<lparr>st_dev = 0, st_ino = 0, st_mode = 0, st_uid = 0, st_gid = 0, st_rdev = 0\<rparr>"

definition no_entry :: ftsent where
  "no_entry = \<lparr>fts_path = [], fts_accpath = [], fts_name = [], fts_statp = no_stat\<rparr>"

definition RecursiveCopier :: "string \<Rightarrow> string \<Rightarrow> copy_flag set \<Rightarrow> copier" where
  "RecursiveCopier p target copyflags =
     \<lparr>c_path = p, c_error_msg = ([], []), c_root = no_entry, c_curr = no_entry,
      c_copyflags = copyflags, c_target = target, sb_target = no_stat, c_curtgtpath = []\<rparr>"

text \<open>\<open>copy_dir\<close>; \<open>t\<close> is what \<open>fts_read\<close> reports for \<open>source\<close> during the call.\<close>

definition copy_dir :: "nat \<Rightarrow> ftree \<Rightarrow> path \<Rightarrow> path \<Rightarrow> copy_flag set \<Rightarrow> world \<Rightarrow> (bool \<times> world) option" where
  "copy_dir fuel t source target flags w =
     (case sys_umask 0 w of
        (old_umask, w1) \<Rightarrow>
          (case run fuel t (RecursiveCopier source target flags) w1 of
             None \<Rightarrow> None
           | Some (r, st, w2) \<Rightarrow> Some (r, snd (sys_umask old_umask w2))))"

section \<open>What the calls of a function may be\<close>

text \<open>
  \<open>grows P w w'\<close>: the world \<open>w'\<close> is \<open>w\<close> after further system calls that all satisfy
  \<open>P\<close>, with the same kernel and the same file-creation mask. \<open>plain flags\<close> holds of the
  calls that every function below \<open>copy_file\<close> and \<open>copy_dir\<close> may make: never \<open>umask\<close>,
  \<open>chmod\<close> and \<open>lchown\<close> only when MB\_COPY\_ATTRIBUTES is set, \<open>lsetxattr\<close> only when
  MB\_COPY\_XATTRS is set, \<open>mkdir\<close> only with mode 0777.
\<close>

definition grows :: "(call \<Rightarrow> bool) \<Rightarrow> world \<Rightarrow> world \<Rightarrow> bool" where
  "grows P w w' =
     (os w' = os w \<and> w_umask w' = w_umask w
      \<and> (\<exists>evs. trace w' = trace w @ evs \<and> list_all (\<lambda>e. P (fst e)) evs))"

definition plain :: "copy_flag set \<Rightarrow> call \<Rightarrow> bool" where
  "plain flags c =
     (case c of
        Umask m \<Rightarrow> False
      | Chmod p m \<Rightarrow> MB_COPY_ATTRIBUTES \<in> flags
      | Lchown p u g \<Rightarrow> MB_COPY_ATTRIBUTES \<in> flags
      | Lsetxattr p name v \<Rightarrow> MB_COPY_XATTRS \<in> flags
      | Mkdir p m \<Rightarrow> m = 0x1FF
      | _ \<Rightarrow> True)"

text \<open>
  \<open>tidy c0 w0 c w\<close>: the copier \<open>c\<close> has the flags, the target, the source path, the
  recorded target identity and the root entry of \<open>c0\<close>, and the world \<open>w\<close> is \<open>w0\<close> after
  calls that are plain for these flags.
\<close>

definition tidy :: "copier \<Rightarrow> world \<Rightarrow> copier \<Rightarrow> world \<Rightarrow> bool" where
  "tidy c0 w0 c w =
     (c_copyflags c = c_copyflags c0 \<and> c_target c = c_target c0 \<and> c_path c = c_path c0
      \<and> sb_target c = sb_target c0 \<and> c_root c = c_root c0
      \<and> grows (plain (c_copyflags c0)) w0 w)"

text \<open>
  The calls of \<open>copy_file\<close> and \<open>copy_dir\<close>: \<open>umask(0)\<close>, calls that are not \<open>umask\<close>, and
  \<open>umask\<close> with the value the first one returned.
\<close>

definition scoped :: "(call \<Rightarrow> bool) \<Rightarrow> world \<Rightarrow> world \<Rightarrow> bool" where
  "scoped P w w' =
     (\<exists>mid. trace w' = trace w @ [(Umask 0, Mask (w_umask w))] @ mid @ [(Umask (w_umask w), Mask 0)]
        \<and> list_all (\<lambda>e. P (fst e)) mid)"

text \<open>The events and the calls that lead from \<open>w\<close> to \<open>w'\<close>.\<close>

definition new_events :: "world \<Rightarrow> world \<Rightarrow> event list" where
  "new_events w w' = drop (length (trace w)) (trace w')"

definition new_calls :: "world \<Rightarrow> world \<Rightarrow> call list" where
  "new_calls w w' = map fst (new_events w w')"

definition is_umask :: "call \<Rightarrow> bool" where
  "is_umask c = (case c of Umask m \<Rightarrow> True | _ \<Rightarrow> False)"

section \<open>Worlds and trees for the examples\<close>

definition reg_stat :: stat where
  "reg_stat = \<lparr>st_dev = 1, st_ino = 10, st_mode = 0x81A4, st_uid = 1000, st_gid = 1000, st_rdev = 0\<rparr>"

definition dir_stat :: stat where
  "dir_stat = \<lparr>st_dev = 1, st_ino = 20, st_mode = 0x41ED, st_uid = 1000, st_gid = 1000, st_rdev = 0\<rparr>"

definition lnk_stat :: stat where
  "lnk_stat = \<lparr>st_dev = 1, st_ino = 30, st_mode = 0xA1FF, st_uid = 1000, st_gid = 1000, st_rdev = 0\<rparr>"

text \<open>
  A kernel under which nothing fails: no path has an entry to unlink, \<open>stat\<close> finds a
  directory, \<open>lstat\<close> a regular file, every file is empty and has no attributes.
\<close>

definition quiet :: kernel where
  "quiet =
     \<lparr>k_unlink = (\<lambda>n p. Some ENOENT),
      k_stat = (\<lambda>n p. Inr dir_stat),
      k_lstat = (\<lambda>n p. Inr reg_stat),
      k_open = (\<lambda>n p fl m. Inr 3),
      k_close = (\<lambda>n fd. None),
      k_read = (\<lambda>n fd. Inr []),
      k_write = (\<lambda>n fd d. Inr (length d)),
      k_mkdir = (\<lambda>n p m. None),
      k_mknod = (\<lambda>n p m d. None),
      k_mkfifo = (\<lambda>n p m. None),
      k_symlink = (\<lambda>n t p. None),
      k_readlink = (\<lambda>n p. Inl EINVAL),
      k_lchown = (\<lambda>n p u g. None),
      k_chmod = (\<lambda>n p m. None),
      k_llistxattr = (\<lambda>n p. Inr []),
      k_lgetxattr = (\<lambda>n p name. Inr []),
      k_lsetxattr = (\<lambda>n p name v. None)\<rparr>"

definition world_of :: "kernel \<Rightarrow> world" where
  "world_of k = \<lparr>os = k, w_umask = 0x12, w_errno = EINVAL, trace = []\<rparr>"

definition entry :: "string \<Rightarrow> string \<Rightarrow> stat \<Rightarrow> ftsent" where
  "entry p name sb = \<lparr>fts_path = p, fts_accpath = p, fts_name = name, fts_statp = sb\<rparr>"

text \<open>The source \<open>/a\<close> with the file \<open>f1\<close> and the directory \<open>d1\<close>, which holds \<open>f2\<close>.\<close>

definition tree_a :: ftree where
  "tree_a =
     FNode (entry ''/a'' ''a'' (dir_stat\<lparr>st_ino := 21\<rparr>))
       [FNode (entry ''/a/f1'' ''f1'' reg_stat) [],
        FNode (entry ''/a/d1'' ''d1'' (dir_stat\<lparr>st_ino := 22\<rparr>))
          [FNode (entry ''/a/d1/f2'' ''f2'' (reg_stat\<lparr>st_ino := 11\<rparr>)) []]]"

text \<open>The source \<open>/a\<close> as an empty directory.\<close>

definition tree_d :: ftree where
  "tree_d = FNode (entry ''/a'' ''a'' (dir_stat\<lparr>st_ino := 21\<rparr>)) []"

text \<open>A kernel under which the source does not exist.\<close>

definition no_source :: kernel where
  "no_source = quiet\<lparr>k_lstat := (\<lambda>n p. Inl ENOENT)\<rparr>"





text \<open>The source \<open>/a\<close> with the empty directory \<open>d1\<close>.\<close>

definition tree_s :: ftree where
  "tree_s =
     FNode (entry ''/a'' ''a'' (dir_stat\<lparr>st_ino := 21\<rparr>))
       [FNode (entry ''/a/d1'' ''d1'' (dir_stat\<lparr>st_ino := 22\<rparr>)) []]"

text \<open>Two entries are the same file when device and inode agree.\<close>

definition same_file :: "stat \<Rightarrow> stat \<Rightarrow> bool" where
  "same_file a b = (st_dev a = st_dev b \<and> st_ino a = st_ino b)"

text \<open>No hook was called for an entry that is the file \<open>sb\<close>.\<close>

definition guarded :: "stat \<Rightarrow> (hook \<times> ftsent) list \<Rightarrow> bool" where
  "guarded sb vs = list_all (\<lambda>v. \<not> same_file sb (fts_statp (snd v))) vs"

text \<open>
  A kernel under which the target of the copy is the directory \<open>/a/d1\<close> of the source:
  \<open>stat\<close> finds the inode 22.
\<close>

definition into_self :: kernel where
  "into_self = quiet\<lparr>k_stat := (\<lambda>n p. Inr (dir_stat\<lparr>st_ino := 22\<rparr>))\<rparr>"

text \<open>A copier that has recorded this target and is at the entry of \<open>/a/d1\<close>.\<close>

definition copier_s :: copier where
  "copier_s =
     (RecursiveCopier ''/a'' ''/a/d1'' {})
       \<lparr>sb_target := dir_stat\<lparr>st_ino := 22\<rparr>,
        c_curr := entry ''/a/d1'' ''d1'' (dir_stat\<lparr>st_ino := 22\<rparr>)\<rparr>"

text \<open>
  A copier for the source \<open>/a\<close>, the target \<open>/b/\<close> and MB\_COPY\_EXCLUDE\_TOP\_LEVEL,
  at the entry of \<open>/a/f1\<close>.
\<close>

definition copier_sep :: copier where
  "copier_sep =
     (RecursiveCopier ''/a'' ''/b/'' {MB_COPY_EXCLUDE_TOP_LEVEL})
       \<lparr>sb_target := dir_stat,
        c_root := entry ''/a'' ''a'' (dir_stat\<lparr>st_ino := 21\<rparr>),
        c_curr := entry ''/a/f1'' ''f1'' reg_stat\<rparr>"

text \<open>
  Kernels for \<open>copy_stat\<close> from \<open>/s\<close> to \<open>/t\<close>: under the first the target \<open>/t\<close> is a
  symlink and the source a regular file, under the second it is the other way round.
\<close>

definition target_link :: kernel where
  "target_link = quiet\<lparr>k_lstat := (\<lambda>n p. if p = ''/t'' then Inr lnk_stat else Inr reg_stat)\<rparr>"

definition source_link :: kernel where
  "source_link = quiet\<lparr>k_lstat := (\<lambda>n p. if p = ''/s'' then Inr lnk_stat else Inr reg_stat)\<rparr>"

text \<open>
  The copier after a hook, had the message kept before the hook been \<open>m\<close>: the same
  when the hook failed, and with the message \<open>m\<close> when it did not.
\<close>

definition remsg :: "message \<Rightarrow> bool \<Rightarrow> copier \<Rightarrow> copier" where
  "remsg m failed c = (if failed then c else c\<lparr>c_error_msg := m\<rparr>)"

text \<open>
  A kernel under which no entry can be removed (EROFS), a copier at the entry of
  \<open>/a/f1\<close> with the target path \<open>on_changed_path\<close> computes for it, and the step to the
  entry of \<open>/a/f2\<close>.
\<close>

definition read_only :: kernel where
  "read_only = quiet\<lparr>k_unlink := (\<lambda>n p. Some (Errno 30))\<rparr>"

definition copier_f1 :: copier where
  "copier_f1 =
     (RecursiveCopier ''/a'' ''/b'' {})
       \<lparr>sb_target := dir_stat,
        c_root := entry ''/a'' ''a'' (dir_stat\<lparr>st_ino := 21\<rparr>),
        c_curr := entry ''/a/f1'' ''f1'' reg_stat,
        c_curtgtpath := ''/b/a/f1''\<rparr>"

definition at_f2 :: "copier \<Rightarrow> copier" where
  "at_f2 c = c\<lparr>c_curr := entry ''/a/f2'' ''f2'' (reg_stat\<lparr>st_ino := 11\<rparr>),
               c_curtgtpath := ''/b/a/f2''\<rparr>"

text \<open>
  What the kernel promises for \<open>O_CREAT | O_EXCL\<close>: at a moment when \<open>lstat\<close> finds an
  entry at the path, \<open>open\<close> fails with EEXIST.
\<close>

definition posix_excl :: "kernel \<Rightarrow> bool" where
  "posix_excl k =
     (\<forall>n p fl m. O_CREAT \<in> fl \<and> O_EXCL \<in> fl \<and> (\<exists>sb. k_lstat k n p = Inr sb)
        \<longrightarrow> k_open k n p fl m = Inl EEXIST)"

text \<open>
  A kernel that keeps this promise, under which \<open>/b\<close> does not exist when \<open>copy_file\<close>
  removes it (call 1) and exists again, created by another process, from call 4 on, the
  call that creates the target.
\<close>

definition racy :: kernel where
  "racy =
     quiet\<lparr>k_lstat := (\<lambda>n p. if p = ''/b'' then (if n < 4 then Inl ENOENT else Inr reg_stat)
                           else Inr reg_stat),
           k_open := (\<lambda>n p fl m. if O_CREAT \<in> fl \<and> O_EXCL \<in> fl \<and> (p = ''/b'' \<longrightarrow> 4 \<le> n)
                                 then Inl EEXIST else Inr 3)\<rparr>"

text \<open>
  The reads of a link that start with a buffer of \<open>sz\<close> bytes and end with the result
  \<open>r\<close>: each is a \<open>readlink\<close> for one byte less than the buffer; a failed read is the last
  and the result is the failure; a read that fills the space it was given is followed by
  the reads with a buffer twice as large; a read that leaves space is the last, and the
  result is what was read.
\<close>

fun regrown :: "path \<Rightarrow> nat \<Rightarrow> event list \<Rightarrow> string option \<Rightarrow> bool" where
  "regrown p sz [] r = False"
| "regrown p sz (e # es) r =
     (fst e = Readlink p (sz - 1)
      \<and> (case snd e of
            Failed err \<Rightarrow> es = [] \<and> r = None
          | Bytes d \<Rightarrow>
              if length d = sz - 1 then regrown p (2 * sz) es r
              else es = [] \<and> length d < sz - 1 \<and> r = Some (takeWhile (\<lambda>c. c \<noteq> CHR 0x00) d)
          | _ \<Rightarrow> False))"

text \<open>A kernel under which every link has a target of 63 characters.\<close>

definition long_link :: kernel where
  "long_link = quiet\<lparr>k_readlink := (\<lambda>n p. Inr (replicate 63 (CHR ''x'')))\<rparr>"

text \<open>An event is failed when its call returned an error.\<close>

definition failed :: "event \<Rightarrow> bool" where
  "failed e = (case snd e of Failed err \<Rightarrow> True | _ \<Rightarrow> False)"

text \<open>
  The bytes a \<open>read\<close> of the descriptor \<open>fd\<close> delivered, and the bytes a \<open>write\<close> to \<open>fd\<close>
  accepted: the first \<open>k\<close> of those it was given, \<open>k\<close> being its result.
\<close>

definition chunk_read :: "int \<Rightarrow> event \<Rightarrow> string" where
  "chunk_read fd e =
     (case fst e of
        Read fd' n \<Rightarrow> (case snd e of Bytes d \<Rightarrow> if fd' = fd then d else [] | _ \<Rightarrow> [])
      | _ \<Rightarrow> [])"

definition chunk_written :: "int \<Rightarrow> event \<Rightarrow> string" where
  "chunk_written fd e =
     (case fst e of
        Write fd' d \<Rightarrow> (case snd e of Count k \<Rightarrow> if fd' = fd then take k d else [] | _ \<Rightarrow> [])
      | _ \<Rightarrow> [])"

text \<open>All the bytes read from, and written to, a descriptor in a list of events, in order.\<close>

definition bytes_read :: "int \<Rightarrow> event list \<Rightarrow> string" where
  "bytes_read fd es = concat (map (chunk_read fd) es)"

definition bytes_written :: "int \<Rightarrow> event list \<Rightarrow> string" where
  "bytes_written fd es = concat (map (chunk_written fd) es)"

text \<open>
  The events of a copy from \<open>fs\<close> to \<open>ft\<close> that still has the bytes \<open>out\<close> of the last chunk
  to write and ends with the result \<open>r\<close>. With nothing left to write the next call is a
  \<open>read\<close> of \<open>fs\<close> for 10240 bytes: if it fails it is the last call and \<open>r\<close> is false, if it
  returns no byte it is the last call and \<open>r\<close> is true, and otherwise its bytes are to be
  written. With bytes left the next call is a \<open>write\<close> of exactly these bytes to \<open>ft\<close>: if
  it fails it is the last call and \<open>r\<close> is false, and otherwise the bytes it did not accept
  are left.
\<close>

fun flushes :: "int \<Rightarrow> int \<Rightarrow> string \<Rightarrow> event list \<Rightarrow> bool \<Rightarrow> bool" where
  "flushes fs ft out [] r = False"
| "flushes fs ft out (e # es) r =
     (if out = [] then
        fst e = Read fs 10240
        \<and> (case snd e of
              Failed err \<Rightarrow> es = [] \<and> \<not> r
            | Bytes d \<Rightarrow> if d = [] then es = [] \<and> r
                          else length d \<le> 10240 \<and> flushes fs ft d es r
            | _ \<Rightarrow> False)
      else
        fst e = Write ft out
        \<and> (case snd e of
              Failed err \<Rightarrow> es = [] \<and> \<not> r
            | Count k \<Rightarrow> k \<le> length out \<and> flushes fs ft (drop k out) es r
            | _ \<Rightarrow> False))"

text \<open>
  A writable descriptor: a \<open>write\<close> of some bytes to \<open>ft\<close> fails or accepts at least one.
  A source that ends: from the call number \<open>N\<close> on, a \<open>read\<close> of \<open>fs\<close> fails or returns no
  byte.
\<close>

definition progresses :: "int \<Rightarrow> kernel \<Rightarrow> bool" where
  "progresses ft k = (\<forall>n d. d \<noteq> [] \<longrightarrow> k_write k n ft d \<noteq> Inr 0)"

definition exhausted :: "int \<Rightarrow> nat \<Rightarrow> kernel \<Rightarrow> bool" where
  "exhausted fs N k = (\<forall>n\<ge>N. k_read k n fs = Inr [] \<or> (\<exists>e. k_read k n fs = Inl e))"

text \<open>
  A kernel under which the first \<open>read\<close> delivers \<open>hello\<close> and every later one nothing, and
  a \<open>write\<close> accepts two bytes at a time.
\<close>

definition slow_pipe :: kernel where
  "slow_pipe = quiet\<lparr>k_read := (\<lambda>n fd. if n = 0 then Inr ''hello'' else Inr []),
                     k_write := (\<lambda>n fd d. Inr 2)\<rparr>"
















section \<open>Lemmas: the calls of each function\<close>

lemma grows_refl: "grows P w w"
  by (simp add: grows_def)

lemma grows_trans: "grows P w0 w1 \<Longrightarrow> grows P w1 w2 \<Longrightarrow> grows P w0 w2"
  by (auto simp: grows_def)

lemma grows_emit: "P c \<Longrightarrow> grows P w0 w \<Longrightarrow> grows P w0 (emit c r w)"
  by (auto simp: grows_def emit_def)

lemma grows_errno: "grows P w0 w \<Longrightarrow> grows P w0 (w\<lparr>w_errno := e\<rparr>)"
  by (auto simp: grows_def)

lemma status_call_emit: "status_call c a w = (r, w') \<Longrightarrow> \<exists>x. w' = emit c x w"
  by (auto simp: status_call_def split: option.splits)

lemma xattr_reply_emit: "xattr_reply c n a w = (r, w') \<Longrightarrow> \<exists>x. w' = emit c x w"
  by (auto simp: xattr_reply_def split: sum.splits if_splits)

lemma sys_emit:
  "sys_unlink p w = (r, w') \<Longrightarrow> \<exists>x. w' = emit (Unlink p) x w"
  "sys_stat p w = (rs, w') \<Longrightarrow> \<exists>x. w' = emit (Stat p) x w"
  "sys_lstat p w = (rs, w') \<Longrightarrow> \<exists>x. w' = emit (Lstat p) x w"
  "sys_open p fl m w = (ro, w') \<Longrightarrow> \<exists>x. w' = emit (Open p fl m) x w"
  "sys_close fd w = (r, w') \<Longrightarrow> \<exists>x. w' = emit (Close fd) x w"
  "sys_read fd n w = (rr, w') \<Longrightarrow> \<exists>x. w' = emit (Read fd n) x w"
  "sys_write fd d w = (rw, w') \<Longrightarrow> \<exists>x. w' = emit (Write fd d) x w"
  "sys_mkdir p m w = (r, w') \<Longrightarrow> \<exists>x. w' = emit (Mkdir p m) x w"
  "sys_mknod p m dev w = (r, w') \<Longrightarrow> \<exists>x. w' = emit (Mknod p m dev) x w"
  "sys_mkfifo p m w = (r, w') \<Longrightarrow> \<exists>x. w' = emit (Mkfifo p m) x w"
  "sys_symlink t p w = (r, w') \<Longrightarrow> \<exists>x. w' = emit (Symlink t p) x w"
  "sys_readlink p n w = (rr, w') \<Longrightarrow> \<exists>x. w' = emit (Readlink p n) x w"
  "sys_lchown p u g w = (r, w') \<Longrightarrow> \<exists>x. w' = emit (Lchown p u g) x w"
  "sys_chmod p m w = (r, w') \<Longrightarrow> \<exists>x. w' = emit (Chmod p m) x w"
  "sys_llistxattr p n w = (rx, w') \<Longrightarrow> \<exists>x. w' = emit (Llistxattr p n) x w"
  "sys_lgetxattr p name n w = (rx, w') \<Longrightarrow> \<exists>x. w' = emit (Lgetxattr p name n) x w"
  "sys_lsetxattr p name v w = (r, w') \<Longrightarrow> \<exists>x. w' = emit (Lsetxattr p name v) x w"
  by (auto simp: sys_unlink_def sys_stat_def sys_lstat_def sys_open_def sys_close_def
        sys_read_def sys_write_def sys_mkdir_def sys_mknod_def sys_mkfifo_def sys_symlink_def
        sys_readlink_def sys_lchown_def sys_chmod_def sys_llistxattr_def sys_lgetxattr_def
        sys_lsetxattr_def
      dest: status_call_emit xattr_reply_emit split: sum.splits)

lemma plain_simps:
  "\<not> plain flags (Umask m)"
  "plain flags (Unlink p)"
  "plain flags (Stat p)"
  "plain flags (Lstat p)"
  "plain flags (Open p fl m)"
  "plain flags (Close fd)"
  "plain flags (Read fd n)"
  "plain flags (Write fd d)"
  "plain flags (Mkdir p m) = (m = 0x1FF)"
  "plain flags (Mknod p m dev)"
  "plain flags (Mkfifo p m)"
  "plain flags (Symlink t p)"
  "plain flags (Readlink p n)"
  "plain flags (Lchown p u g) = (MB_COPY_ATTRIBUTES \<in> flags)"
  "plain flags (Chmod p m) = (MB_COPY_ATTRIBUTES \<in> flags)"
  "plain flags (Llistxattr p n)"
  "plain flags (Lgetxattr p name n)"
  "plain flags (Lsetxattr p name v) = (MB_COPY_XATTRS \<in> flags)"
  by (simp_all add: plain_def)

lemma mode_0777: "S_IRWXU OR S_IRWXG OR S_IRWXO = (0x1FF :: mode_t)"
  by (simp add: S_IRWXU_def S_IRWXG_def S_IRWXO_def)

lemma plain_intros:
  "plain flags (Unlink p)"
  "plain flags (Stat p)"
  "plain flags (Lstat p)"
  "plain flags (Open p fl m)"
  "plain flags (Close fd)"
  "plain flags (Read fd n)"
  "plain flags (Write fd d)"
  "plain flags (Mkdir p (S_IRWXU OR S_IRWXG OR S_IRWXO))"
  "plain flags (Mknod p m dev)"
  "plain flags (Mkfifo p m)"
  "plain flags (Symlink t p)"
  "plain flags (Readlink p n)"
  "MB_COPY_ATTRIBUTES \<in> flags \<Longrightarrow> plain flags (Lchown p u g)"
  "MB_COPY_ATTRIBUTES \<in> flags \<Longrightarrow> plain flags (Chmod p m)"
  "plain flags (Llistxattr p n)"
  "plain flags (Lgetxattr p name n)"
  "MB_COPY_XATTRS \<in> flags \<Longrightarrow> plain flags (Lsetxattr p name v)"
  by (simp_all add: plain_def mode_0777)

lemmas grows_intros = grows_emit grows_errno plain_intros

lemma grows_copy_stat:
  "copy_stat source target w = (r, w') \<Longrightarrow> MB_COPY_ATTRIBUTES \<in> flags \<Longrightarrow>
   grows (plain flags) w0 w \<Longrightarrow> grows (plain flags) w0 w'"
  by (auto simp: copy_stat_def split: prod.splits sum.splits if_splits dest!: sys_emit)
     (blast intro: grows_intros)+

lemma grows_write_loop:
  "write_loop fuel fd out w = Some (r, w') \<Longrightarrow> grows (plain flags) w0 w \<Longrightarrow>
   grows (plain flags) w0 w'"
proof (induction fuel arbitrary: out w)
  case 0
  then show ?case by simp
next
  case (Suc fuel)
  then show ?case
    by (auto split: prod.splits sum.splits if_splits dest!: sys_emit)
       (blast intro: grows_intros)+
qed

lemma grows_copy_data_fd:
  "copy_data_fd fuel fs ft w = Some (r, w') \<Longrightarrow> grows (plain flags) w0 w \<Longrightarrow>
   grows (plain flags) w0 w'"
proof (induction fuel arbitrary: w)
  case 0
  then show ?case by simp
next
  case (Suc fuel)
  then show ?case
    by (auto split: prod.splits sum.splits if_splits option.splits bool.splits
        dest!: sys_emit)
       (blast intro: grows_intros grows_write_loop)+
qed

lemma grows_copy_data_error:
  "copy_data_error fs ft w = (r, w') \<Longrightarrow> grows (plain flags) w0 w \<Longrightarrow>
   grows (plain flags) w0 w'"
  by (cases "sys_close fs w"; cases "sys_close ft w"; cases "sys_close ft (snd (sys_close fs w))")
     (auto simp: copy_data_error_def Let_def
        split: if_splits dest!: sys_emit intro: grows_intros)

lemma grows_copy_data:
  "copy_data fuel source target w = Some (r, w') \<Longrightarrow> grows (plain flags) w0 w \<Longrightarrow>
   grows (plain flags) w0 w'"
  unfolding copy_data_def
  by (auto split: prod.splits sum.splits if_splits option.splits bool.splits
        dest!: sys_emit)
     (blast intro: grows_intros grows_copy_data_fd grows_copy_data_error)+


lemma grows_xattr_loop:
  "xattr_loop source target ends names w = Some (r, w') \<Longrightarrow> MB_COPY_XATTRS \<in> flags \<Longrightarrow>
   grows (plain flags) w0 w \<Longrightarrow> grows (plain flags) w0 w'"
proof (induction names arbitrary: w)
  case Nil
  then show ?case by (simp split: if_splits)
next
  case (Cons name rest)
  then show ?case
    by (auto split: prod.splits sum.splits if_splits dest!: sys_emit)
       (blast intro: grows_intros)+
qed

lemma grows_copy_xattrs:
  "copy_xattrs source target w = Some (r, w') \<Longrightarrow> MB_COPY_XATTRS \<in> flags \<Longrightarrow>
   grows (plain flags) w0 w \<Longrightarrow> grows (plain flags) w0 w'"
  unfolding copy_xattrs_def
  by (auto split: prod.splits sum.splits if_splits dest!: sys_emit)
     (blast intro: grows_intros grows_xattr_loop)+

lemma grows_readlink2_loop:
  "readlink2_loop fuel p sz w = Some (r, w') \<Longrightarrow> grows (plain flags) w0 w \<Longrightarrow>
   grows (plain flags) w0 w'"
proof (induction fuel arbitrary: sz w)
  case 0
  then show ?case by simp
next
  case (Suc fuel)
  then show ?case
    by (auto split: prod.splits sum.splits if_splits dest!: sys_emit)
       (blast intro: grows_intros)+
qed

lemma grows_must:
  "must (x, w1) = Some (r, w') \<Longrightarrow> grows (plain flags) w0 w1 \<Longrightarrow> grows (plain flags) w0 w'"
  by (auto simp: must_def split: sum.splits)

lemma grows_copy_file_switch:
  "copy_file_switch fuel source target flags sb w = Some (r, w') \<Longrightarrow>
   grows (plain flags) w0 w \<Longrightarrow> grows (plain flags) w0 w'"
  unfolding copy_file_switch_def Let_def readlink2_def must_def
  by (auto split: prod.splits sum.splits if_splits option.splits dest!: sys_emit)
     (blast intro: grows_intros grows_copy_data grows_readlink2_loop)+

lemma grows_copy_file_attrs:
  "copy_file_attrs source target flags w = Some (r, w') \<Longrightarrow>
   grows (plain flags) w0 w \<Longrightarrow> grows (plain flags) w0 w'"
  unfolding copy_file_attrs_def
  by (auto split: prod.splits sum.splits if_splits option.splits bool.splits)
     (blast intro: grows_intros grows_copy_stat grows_copy_xattrs)+

lemma grows_copy_file_body:
  "copy_file_body fuel source target flags w = Some (r, w') \<Longrightarrow>
   grows (plain flags) w0 w \<Longrightarrow> grows (plain flags) w0 w'"
  unfolding copy_file_body_def
  by (auto split: prod.splits sum.splits if_splits option.splits bool.splits dest!: sys_emit)
     (blast intro: grows_intros grows_copy_file_switch grows_copy_file_attrs)+


lemma tidy_curr: "tidy c0 w0 c w \<Longrightarrow> tidy c0 w0 (c\<lparr>c_curr := e\<rparr>) w"
  by (simp add: tidy_def)

lemma tidy_msg: "tidy c0 w0 c w \<Longrightarrow> tidy c0 w0 (c\<lparr>c_error_msg := m\<rparr>) w"
  by (simp add: tidy_def)

lemma tidy_world:
  "grows (plain (c_copyflags c0)) w0 w' \<Longrightarrow> tidy c0 w0 c w \<Longrightarrow> tidy c0 w0 c w'"
  by (simp add: tidy_def)

lemma tidy_grows: "tidy c0 w0 c w \<Longrightarrow> grows (plain (c_copyflags c0)) w0 w"
  by (simp add: tidy_def)

lemma tidy_flags: "tidy c0 w0 c w \<Longrightarrow> c_copyflags c = c_copyflags c0"
  by (simp add: tidy_def)

lemma tidy_emit:
  "plain (c_copyflags c0) x \<Longrightarrow> tidy c0 w0 c w \<Longrightarrow> tidy c0 w0 c (emit x y w)"
  by (blast intro: tidy_world tidy_grows grows_emit)


lemma tidy_sys:
  "sys_unlink p w = (r, w') \<Longrightarrow> tidy c0 w0 c w \<Longrightarrow> tidy c0 w0 c w'"
  "sys_stat p w = (rs, w') \<Longrightarrow> tidy c0 w0 c w \<Longrightarrow> tidy c0 w0 c w'"
  "sys_mkdir p (S_IRWXU OR S_IRWXG OR S_IRWXO) w = (r, w') \<Longrightarrow> tidy c0 w0 c w \<Longrightarrow> tidy c0 w0 c w'"
  "sys_mknod p m dev w = (r, w') \<Longrightarrow> tidy c0 w0 c w \<Longrightarrow> tidy c0 w0 c w'"
  "sys_mkfifo p m w = (r, w') \<Longrightarrow> tidy c0 w0 c w \<Longrightarrow> tidy c0 w0 c w'"
  "sys_symlink t p w = (r, w') \<Longrightarrow> tidy c0 w0 c w \<Longrightarrow> tidy c0 w0 c w'"
  by (blast dest!: sys_emit intro: tidy_emit plain_intros)+

lemma tidy_remove_existing_file:
  "remove_existing_file c w = (r, c', w') \<Longrightarrow> tidy c0 w0 c w \<Longrightarrow> tidy c0 w0 c' w'"
  unfolding remove_existing_file_def
  by (auto split: prod.splits if_splits)
     (blast intro: tidy_sys tidy_msg)+

lemma tidy_copy_stat:
  "copy_stat s t w = (r, w') \<Longrightarrow> MB_COPY_ATTRIBUTES \<in> c_copyflags c \<Longrightarrow>
   tidy c0 w0 c w \<Longrightarrow> tidy c0 w0 c w'"
proof -
  assume a: "copy_stat s t w = (r, w')" "MB_COPY_ATTRIBUTES \<in> c_copyflags c" "tidy c0 w0 c w"
  from a(2,3) have "MB_COPY_ATTRIBUTES \<in> c_copyflags c0"
    by (simp add: tidy_flags)
  with a(1,3) have "grows (plain (c_copyflags c0)) w0 w'"
    by (blast intro: grows_copy_stat tidy_grows)
  with a(3) show ?thesis
    by (rule tidy_world [rotated])
qed

lemma tidy_copy_xattrs:
  "copy_xattrs s t w = Some (r, w') \<Longrightarrow> MB_COPY_XATTRS \<in> c_copyflags c \<Longrightarrow>
   tidy c0 w0 c w \<Longrightarrow> tidy c0 w0 c w'"
proof -
  assume a: "copy_xattrs s t w = Some (r, w')" "MB_COPY_XATTRS \<in> c_copyflags c" "tidy c0 w0 c w"
  from a(2,3) have "MB_COPY_XATTRS \<in> c_copyflags c0"
    by (simp add: tidy_flags)
  with a(1,3) have "grows (plain (c_copyflags c0)) w0 w'"
    by (blast intro: grows_copy_xattrs tidy_grows)
  with a(3) show ?thesis
    by (rule tidy_world [rotated])
qed

lemma tidy_leaf:
  "copy_data fuel s t w = Some (r, w') \<Longrightarrow> tidy c0 w0 c w \<Longrightarrow> tidy c0 w0 c w'"
  "readlink2_loop fuel p sz w = Some (rl, w') \<Longrightarrow> tidy c0 w0 c w \<Longrightarrow> tidy c0 w0 c w'"
  by (blast intro: tidy_world tidy_grows grows_copy_data grows_readlink2_loop)+

lemma tidy_cp_attrs:
  "cp_attrs c w = (r, c', w') \<Longrightarrow> tidy c0 w0 c w \<Longrightarrow> tidy c0 w0 c' w'"
  unfolding cp_attrs_def
  by (auto split: prod.splits if_splits bool.splits)
     ((assumption | rule tidy_msg | (rule tidy_copy_stat, assumption))+)

lemma tidy_cp_xattrs:
  "cp_xattrs c w = Some (r, c', w') \<Longrightarrow> tidy c0 w0 c w \<Longrightarrow> tidy c0 w0 c' w'"
  unfolding cp_xattrs_def
  by (auto split: prod.splits if_splits bool.splits option.splits)
     ((assumption | rule tidy_msg | (rule tidy_copy_xattrs, assumption))+)

lemma tidy_cp_both:
  "cp_both c w = Some (a, c', w') \<Longrightarrow> tidy c0 w0 c w \<Longrightarrow> tidy c0 w0 c' w'"
  unfolding cp_both_def
  by (auto split: prod.splits if_splits bool.splits option.splits)
     ((assumption | rule tidy_msg | (rule tidy_cp_attrs tidy_cp_xattrs, assumption))+)

lemma tidy_snd:
  "tidy c0 w0 c w \<Longrightarrow> tidy c0 w0 c (snd (sys_mknod p m dev w))"
  "tidy c0 w0 c w \<Longrightarrow> tidy c0 w0 c (snd (sys_mkfifo p m w))"
  by (cases "sys_mknod p m dev w", simp, erule (1) tidy_sys)
     (cases "sys_mkfifo p m w", simp, erule (1) tidy_sys)

lemma tidy_create_node:
  "create_node r what c = Some (a, c', w') \<Longrightarrow> tidy c0 w0 c (snd r) \<Longrightarrow> tidy c0 w0 c' w'"
  unfolding create_node_def
  by (auto split: sum.splits prod.splits intro: tidy_msg tidy_cp_both)

lemma tidy_skip_directory:
  "skip_directory c w = Some (a, c', w') \<Longrightarrow> tidy c0 w0 c w \<Longrightarrow> tidy c0 w0 c' w'"
  unfolding skip_directory_def
  by (auto split: prod.splits option.splits)
     ((assumption | rule tidy_msg | (rule tidy_cp_attrs tidy_cp_xattrs, assumption))+)

lemma tidy_on_reached_directory_pre:
  "on_reached_directory_pre c w = Some (a, c', w') \<Longrightarrow> tidy c0 w0 c w \<Longrightarrow> tidy c0 w0 c' w'"
  unfolding on_reached_directory_pre_def
  by (auto split: prod.splits sum.splits if_splits)
     ((assumption | rule tidy_msg | (rule tidy_skip_directory tidy_sys, assumption))+)

lemma tidy_on_reached_file:
  "on_reached_file fuel c w = Some (a, c', w') \<Longrightarrow> tidy c0 w0 c w \<Longrightarrow> tidy c0 w0 c' w'"
  unfolding on_reached_file_def
  by (auto split: prod.splits option.splits bool.splits)
     ((assumption | rule tidy_msg | (rule tidy_remove_existing_file tidy_leaf tidy_cp_both, assumption))+)

lemma tidy_on_reached_symlink:
  "on_reached_symlink fuel c w = Some (a, c', w') \<Longrightarrow> tidy c0 w0 c w \<Longrightarrow> tidy c0 w0 c' w'"
  unfolding on_reached_symlink_def readlink2_def
  by (auto split: prod.splits option.splits bool.splits sum.splits)
     ((assumption | rule tidy_msg | (rule tidy_remove_existing_file tidy_leaf tidy_sys tidy_cp_both, assumption))+)

lemma tidy_on_reached_block_device:
  "on_reached_block_device c w = Some (a, c', w') \<Longrightarrow> tidy c0 w0 c w \<Longrightarrow> tidy c0 w0 c' w'"
  unfolding on_reached_block_device_def
  by (auto split: prod.splits bool.splits)
     ((assumption | rule tidy_msg | rule tidy_snd | (rule tidy_remove_existing_file tidy_sys tidy_create_node, assumption))+)

lemma tidy_on_reached_character_device:
  "on_reached_character_device c w = Some (a, c', w') \<Longrightarrow> tidy c0 w0 c w \<Longrightarrow> tidy c0 w0 c' w'"
  unfolding on_reached_character_device_def
  by (auto split: prod.splits bool.splits)
     ((assumption | rule tidy_msg | rule tidy_snd | (rule tidy_remove_existing_file tidy_sys tidy_create_node, assumption))+)

lemma tidy_on_reached_fifo:
  "on_reached_fifo c w = Some (a, c', w') \<Longrightarrow> tidy c0 w0 c w \<Longrightarrow> tidy c0 w0 c' w'"
  unfolding on_reached_fifo_def
  by (auto split: prod.splits bool.splits)
     ((assumption | rule tidy_msg | rule tidy_snd | (rule tidy_remove_existing_file tidy_sys tidy_create_node, assumption))+)

lemma tidy_call_hook:
  "call_hook fuel h c w = Some (a, c', w') \<Longrightarrow> tidy c0 w0 c w \<Longrightarrow> tidy c0 w0 c' w'"
  unfolding call_hook_def on_reached_directory_post_def on_reached_socket_def
  by (cases h)
     (auto intro: tidy_on_reached_directory_pre tidy_cp_both tidy_on_reached_file
        tidy_on_reached_symlink tidy_on_reached_block_device
        tidy_on_reached_character_device tidy_on_reached_fifo)


lemma tidy_curtgtpath: "tidy c0 w0 c w \<Longrightarrow> tidy c0 w0 (c\<lparr>c_curtgtpath := x\<rparr>) w"
  by (simp add: tidy_def)

lemma tidy_on_changed_path:
  "on_changed_path c = Some (a, c') \<Longrightarrow> tidy c0 w0 c w \<Longrightarrow> tidy c0 w0 c' w"
  unfolding on_changed_path_def Let_def
  by (auto split: if_splits intro: tidy_msg tidy_curtgtpath)

lemma tidy_visit:
  assumes "visit fuel h e st w = Some (a, st', w')" and "tidy c0 w0 (cop st) w"
  shows "tidy c0 w0 (cop st') w'"
proof (cases "on_changed_path ((cop st)\<lparr>c_curr := e\<rparr>)")
  case None
  then show ?thesis using assms(1) by (simp add: visit_def)
next
  case (Some p)
  obtain a1 c1 where p: "p = (a1, c1)" by (cases p)
  have t1: "tidy c0 w0 c1 w"
    using Some p assms(2) by (blast intro: tidy_on_changed_path tidy_curr)
  show ?thesis
  proof (cases "a1 = FTS_OK")
    case False
    then show ?thesis using assms(1) Some p t1 by (auto simp: visit_def)
  next
    case True
    then show ?thesis
      using assms(1) Some p t1
      by (auto simp: visit_def split: option.splits intro: tidy_call_hook)
  qed
qed

lemma tidy_walk:
  "walk fuel t st w = Some (b, st', w') \<Longrightarrow> tidy c0 w0 (cop st) w \<Longrightarrow> tidy c0 w0 (cop st') w'"
  "walk_list fuel ts st w = Some (b, st', w') \<Longrightarrow> tidy c0 w0 (cop st) w \<Longrightarrow> tidy c0 w0 (cop st') w'"
proof (induction fuel t st w and fuel ts st w arbitrary: b st' w' and b st' w'
    rule: walk_walk_list.induct)
  case (1 fuel e below st w)
  from "1.prems"(1) obtain a st1 w1 where v: "visit fuel (hook_of e) e st w = Some (a, st1, w1)"
    by (cases "visit fuel (hook_of e) e st w") auto
  have t1: "tidy c0 w0 (cop st1) w1"
    using v "1.prems"(2) by (rule tidy_visit)
  show ?case
  proof (cases "FTS_Stop \<in> a \<or> FTS_Skip \<in> a \<or> hook_of e \<noteq> Directory_pre")
    case True
    then show ?thesis using "1.prems"(1) v t1 by (auto split: if_splits)
  next
    case False
    with "1.prems"(1) v obtain b2 st2 w2 where l: "walk_list fuel below st1 w1 = Some (b2, st2, w2)"
      by (cases "walk_list fuel below st1 w1") auto
    have t2: "tidy c0 w0 (cop st2) w2"
      using "1.IH" [OF v refl refl _ _ l t1] False by simp
    show ?thesis
    proof (cases b2)
      case True
      then show ?thesis using "1.prems"(1) v False l t2 by simp
    next
      case nb: False
      with "1.prems"(1) v False l obtain a3 where
        p: "visit fuel Directory_post e st2 w2 = Some (a3, st', w')"
        by (cases "visit fuel Directory_post e st2 w2") auto
      show ?thesis using p t2 by (rule tidy_visit)
    qed
  qed
next
  case (2 fuel st w)
  then show ?case by simp
next
  case (3 fuel t ts st w)
  from "3.prems"(1) obtain b1 st1 w1 where h: "walk fuel t st w = Some (b1, st1, w1)"
    by (cases "walk fuel t st w") auto
  have t1: "tidy c0 w0 (cop st1) w1"
    using "3.IH"(1) [OF h "3.prems"(2)] .
  show ?case
  proof (cases b1)
    case True
    then show ?thesis using "3.prems"(1) h t1 by simp
  next
    case False
    then have wl: "walk_list fuel ts st1 w1 = Some (b, st', w')"
      using "3.prems"(1) h by simp
    from False h have h': "walk fuel t st w = Some (False, st1, w1)" by simp
    show ?thesis by (rule "3.IH"(2) [OF h' refl refl refl wl t1])
  qed
qed


lemma grows_on_pre_execute:
  "on_pre_execute c w = (r, c1, w1) \<Longrightarrow> grows (plain flags) w0 w \<Longrightarrow>
   grows (plain flags) w0 w1"
  unfolding on_pre_execute_def
  by (auto split: prod.splits sum.splits if_splits dest!: sys_emit)
     ((assumption | rule grows_intros)+)

lemma flags_on_pre_execute:
  "on_pre_execute c w = (r, c1, w1) \<Longrightarrow> c_copyflags c1 = c_copyflags c"
  unfolding on_pre_execute_def
  by (auto split: prod.splits sum.splits if_splits)

lemma tidy_start: "grows (plain (c_copyflags c)) w0 w \<Longrightarrow> tidy c w0 c w"
  by (simp add: tidy_def)

lemma grows_run:
  assumes "run fuel t c w = Some (r, st, w')" and "grows (plain (c_copyflags c)) w0 w"
  shows "grows (plain (c_copyflags c)) w0 w'"
proof -
  obtain b c1 w1 where p: "on_pre_execute c w = (b, c1, w1)"
    by (cases "on_pre_execute c w") auto
  have g1: "grows (plain (c_copyflags c)) w0 w1"
    using p assms(2) by (rule grows_on_pre_execute)
  have f1: "c_copyflags c1 = c_copyflags c"
    using p by (rule flags_on_pre_execute)
  show ?thesis
  proof (cases b)
    case False
    then show ?thesis using assms(1) p g1 by (simp add: run_def)
  next
    case True
    define c2 where "c2 = c1\<lparr>c_root := root_entry t\<rparr>"
    have f2: "c_copyflags c2 = c_copyflags c" by (simp add: c2_def f1)
    from True assms(1) p obtain stopped where
      wk: "walk fuel t \<lparr>cop = c2, ok = True, visited = []\<rparr> w1 = Some (stopped, st, w')"
      unfolding run_def c2_def
      by (cases "walk fuel t \<lparr>cop = c1\<lparr>c_root := root_entry t\<rparr>, ok = True, visited = []\<rparr> w1")
         auto
    have "tidy c2 w0 c2 w1" using g1 f2 by (simp add: tidy_start)
    then have "tidy c2 w0 (cop st) w'" using tidy_walk(1) [OF wk] by simp
    then show ?thesis using f2 by (simp add: tidy_def)
  qed
qed

lemma scoped_umask:
  assumes "sys_umask 0 w = (old, w1)" and "grows P w1 w2"
  shows "scoped P w (snd (sys_umask old w2))"
    and "w_umask (snd (sys_umask old w2)) = w_umask w AND 0x1FF"
  using assms
  by (auto simp: sys_umask_def emit_def grows_def scoped_def)

lemma scoped_copy_file:
  assumes "copy_file fuel source target flags w = Some (r, w')"
  shows "scoped (plain flags) w w'" and "w_umask w' = w_umask w AND 0x1FF"
proof -
  obtain old w1 where u: "sys_umask 0 w = (old, w1)" by (cases "sys_umask 0 w")
  from assms u obtain w2 where b: "copy_file_body fuel source target flags w1 = Some (r, w2)"
    and w': "w' = snd (sys_umask old w2)"
    by (cases "copy_file_body fuel source target flags w1") (auto simp: copy_file_def)
  have g: "grows (plain flags) w1 w2"
    using b grows_refl by (rule grows_copy_file_body)
  show "scoped (plain flags) w w'" "w_umask w' = w_umask w AND 0x1FF"
    using scoped_umask [OF u g] w' by simp_all
qed

lemma scoped_copy_dir:
  assumes "copy_dir fuel t source target flags w = Some (r, w')"
  shows "scoped (plain flags) w w'" and "w_umask w' = w_umask w AND 0x1FF"
proof -
  obtain old w1 where u: "sys_umask 0 w = (old, w1)" by (cases "sys_umask 0 w")
  from assms u obtain st w2 where
    b: "run fuel t (RecursiveCopier source target flags) w1 = Some (r, st, w2)"
    and w': "w' = snd (sys_umask old w2)"
    by (cases "run fuel t (RecursiveCopier source target flags) w1") (auto simp: copy_dir_def)
  have "grows (plain (c_copyflags (RecursiveCopier source target flags))) w1 w2"
    using b grows_refl by (rule grows_run)
  then have g: "grows (plain flags) w1 w2" by (simp add: RecursiveCopier_def)
  show "scoped (plain flags) w w'" "w_umask w' = w_umask w AND 0x1FF"
    using scoped_umask [OF u g] w' by simp_all
qed


lemma scoped_mono: "scoped P w w' \<Longrightarrow> (\<And>c. P c \<Longrightarrow> Q c) \<Longrightarrow> scoped Q w w'"
  unfolding scoped_def list_all_iff by blast

lemma plain_not_umask: "plain flags c \<Longrightarrow> \<not> is_umask c"
  by (cases c) (simp_all add: plain_def is_umask_def)

section \<open>The file-creation mask (C8)\<close>

text \<open>
  Claim C8. Both entry points, \<open>copy_file\<close> and \<open>copy_dir\<close>, save the file-creation mask
  on entry, set it to 0 for the call and restore the saved value on every path that
  leaves the call, so the mask after the call is the mask before it, whether the call
  succeeded or failed.

  The first call of the run is \<open>umask(0)\<close>, which returns the old mask; the last is
  \<open>umask\<close> with that old mask, which finds the mask 0; no call between them is \<open>umask\<close>.
  The kernel keeps the nine permission bits of a mask, which is the hypothesis on the
  mask before the call. For \<open>copy_dir\<close> the traversal engine between the two calls is
  the one modelled from the spec.
\<close>

theorem umask_saved_and_restored:
  assumes "w_umask w AND 0x1FF = w_umask w"
  shows "(copy_file fuel source target flags w = Some (r, w') \<longrightarrow>
           w_umask w' = w_umask w \<and> scoped (\<lambda>c. \<not> is_umask c) w w')
       \<and> (copy_dir fuel t source target flags w = Some (r, w') \<longrightarrow>
           w_umask w' = w_umask w \<and> scoped (\<lambda>c. \<not> is_umask c) w w')"
proof -
  have "scoped (\<lambda>c. \<not> is_umask c) w w'" if "scoped (plain flags) w w'"
    using that by (rule scoped_mono) (rule plain_not_umask)
  then show ?thesis
    using assms scoped_copy_file [of fuel source target flags w r w']
      scoped_copy_dir [of fuel t source target flags w r w']
    by auto
qed

text \<open>
  A single-entry copy that fails (the source does not exist) and a tree copy that
  succeeds, both started with the mask 022.
\<close>

theorem umask_saved_and_restored_witness:
  "(\<exists>w'. copy_file 3 ''/a'' ''/b'' {} (world_of no_source) = Some (False, w')
         \<and> w_umask w' = 0x12 \<and> scoped (\<lambda>c. \<not> is_umask c) (world_of no_source) w')
   \<and> (\<exists>w'. copy_dir 3 tree_d ''/a'' ''/b'' {} (world_of quiet) = Some (True, w')
         \<and> w_umask w' = 0x12 \<and> scoped (\<lambda>c. \<not> is_umask c) (world_of quiet) w')"
proof -
  have m: "w_umask (world_of k) AND 0x1FF = w_umask (world_of k)" for k
    by (simp add: world_of_def)
  have "map_option fst (copy_file 3 ''/a'' ''/b'' {} (world_of no_source)) = Some False"
    by code_simp
  then obtain w1 where f: "copy_file 3 ''/a'' ''/b'' {} (world_of no_source) = Some (False, w1)"
    by (cases "copy_file 3 ''/a'' ''/b'' {} (world_of no_source)") auto
  have "map_option fst (copy_dir 3 tree_d ''/a'' ''/b'' {} (world_of quiet)) = Some True"
    by code_simp
  then obtain w2 where d: "copy_dir 3 tree_d ''/a'' ''/b'' {} (world_of quiet) = Some (True, w2)"
    by (cases "copy_dir 3 tree_d ''/a'' ''/b'' {} (world_of quiet)") auto
  have u: "w_umask (world_of k) = 0x12" for k by (simp add: world_of_def)
  show ?thesis
    using umask_saved_and_restored [where w = "world_of no_source" and fuel = 3
          and source = "''/a''" and target = "''/b''" and flags = "{}" and r = False
          and w' = w1, OF m]
      umask_saved_and_restored [where w = "world_of quiet" and fuel = 3 and t = tree_d
          and source = "''/a''" and target = "''/b''" and flags = "{}" and r = True
          and w' = w2, OF m]
      f d u
    by simp
qed




section \<open>Directories are created with mode 0777 (C10)\<close>




lemma on_changed_path_guard:
  "same_file (sb_target c) (fts_statp (c_curr c)) \<Longrightarrow>
   on_changed_path c =
     Some ({FTS_Fail, FTS_Stop},
           c\<lparr>c_error_msg := (''%s: Cannot copy on top of itself'', [Str (fts_path (c_curr c))])\<rparr>)"
  by (simp add: on_changed_path_def same_file_def insert_commute)

lemma on_changed_path_ok:
  "on_changed_path c = Some (a, c') \<Longrightarrow> a = FTS_OK \<Longrightarrow>
   \<not> same_file (sb_target c) (fts_statp (c_curr c))"
  by (auto simp: on_changed_path_def same_file_def FTS_OK_def split: if_splits)

lemma visit_guard:
  assumes "same_file (sb_target (cop st)) (fts_statp e)"
  shows "visit fuel h e st w =
     Some ({FTS_Fail, FTS_Stop},
           st\<lparr>cop := (cop st)\<lparr>c_curr := e,
                   c_error_msg := (''%s: Cannot copy on top of itself'', [Str (fts_path e)])\<rparr>,
              ok := False\<rparr>, w)"
  using on_changed_path_guard [of "(cop st)\<lparr>c_curr := e\<rparr>"] assms
  by (simp add: visit_def FTS_OK_def)

lemma visit_visited:
  assumes "visit fuel h e st w = Some (a, st', w')"
  shows "visited st' = visited st
       \<or> visited st' = visited st @ [(h, e)] \<and> \<not> same_file (sb_target (cop st)) (fts_statp e)"
proof (cases "on_changed_path ((cop st)\<lparr>c_curr := e\<rparr>)")
  case None
  then show ?thesis using assms by (simp add: visit_def)
next
  case (Some p)
  obtain a1 c1 where p: "p = (a1, c1)" by (cases p)
  show ?thesis
  proof (cases "a1 = FTS_OK")
    case False
    then show ?thesis using assms Some p by (auto simp: visit_def)
  next
    case True
    have "\<not> same_file (sb_target (cop st)) (fts_statp e)"
      using on_changed_path_ok [of "(cop st)\<lparr>c_curr := e\<rparr>" a1 c1] Some p True by simp
    then show ?thesis
      using assms Some p True by (auto simp: visit_def split: option.splits)
  qed
qed

lemma tidy_sb: "tidy c0 w0 c w \<Longrightarrow> sb_target c = sb_target c0"
  by (simp add: tidy_def)

lemma visit_sb_target:
  assumes "visit fuel h e st w = Some (a, st', w')"
  shows "sb_target (cop st') = sb_target (cop st)"
  using tidy_visit [OF assms, of "cop st" w] tidy_start [OF grows_refl]
  by (simp add: tidy_sb)

lemma guarded_visit:
  assumes "visit fuel h e st w = Some (a, st', w')" and "guarded sb (visited st)"
    and "sb_target (cop st) = sb"
  shows "guarded sb (visited st') \<and> sb_target (cop st') = sb"
  using visit_visited [OF assms(1)] visit_sb_target [OF assms(1)] assms(2,3)
  by (auto simp: guarded_def)

lemma guarded_walk:
  "walk fuel t st w = Some (b, st', w') \<Longrightarrow> guarded sb (visited st) \<Longrightarrow>
   sb_target (cop st) = sb \<Longrightarrow> guarded sb (visited st') \<and> sb_target (cop st') = sb"
  "walk_list fuel ts st w = Some (b, st', w') \<Longrightarrow> guarded sb (visited st) \<Longrightarrow>
   sb_target (cop st) = sb \<Longrightarrow> guarded sb (visited st') \<and> sb_target (cop st') = sb"
proof (induction fuel t st w and fuel ts st w arbitrary: b st' w' and b st' w'
    rule: walk_walk_list.induct)
  case (1 fuel e below st w)
  from "1.prems"(1) obtain a st1 w1 where v: "visit fuel (hook_of e) e st w = Some (a, st1, w1)"
    by (cases "visit fuel (hook_of e) e st w") auto
  have t1: "guarded sb (visited st1) \<and> sb_target (cop st1) = sb"
    using v "1.prems"(2,3) by (rule guarded_visit)
  show ?case
  proof (cases "FTS_Stop \<in> a \<or> FTS_Skip \<in> a \<or> hook_of e \<noteq> Directory_pre")
    case True
    then show ?thesis using "1.prems"(1) v t1 by (auto split: if_splits)
  next
    case False
    with "1.prems"(1) v obtain b2 st2 w2 where l: "walk_list fuel below st1 w1 = Some (b2, st2, w2)"
      by (cases "walk_list fuel below st1 w1") auto
    have t2: "guarded sb (visited st2) \<and> sb_target (cop st2) = sb"
      using "1.IH" [OF v refl refl _ _ l] t1 False by simp
    show ?thesis
    proof (cases b2)
      case True
      then show ?thesis using "1.prems"(1) v False l t2 by simp
    next
      case nb: False
      with "1.prems"(1) v False l obtain a3 where
        p: "visit fuel Directory_post e st2 w2 = Some (a3, st', w')"
        by (cases "visit fuel Directory_post e st2 w2") auto
      show ?thesis using guarded_visit [OF p] t2 by simp
    qed
  qed
next
  case (2 fuel st w)
  then show ?case by simp
next
  case (3 fuel t ts st w)
  from "3.prems"(1) obtain b1 st1 w1 where h: "walk fuel t st w = Some (b1, st1, w1)"
    by (cases "walk fuel t st w") auto
  have t1: "guarded sb (visited st1) \<and> sb_target (cop st1) = sb"
    using "3.IH"(1) [OF h "3.prems"(2,3)] .
  show ?case
  proof (cases b1)
    case True
    then show ?thesis using "3.prems"(1) h t1 by simp
  next
    case False
    then have wl: "walk_list fuel ts st1 w1 = Some (b, st', w')"
      using "3.prems"(1) h by simp
    from False h have h': "walk fuel t st w = Some (False, st1, w1)" by simp
    show ?thesis using "3.IH"(2) [OF h' refl refl refl wl] t1 by simp
  qed
qed

lemma guarded_run:
  assumes "run fuel t c w = Some (r, st, w')"
  shows "guarded (sb_target (fst (snd (on_pre_execute c w)))) (visited st)"
proof -
  obtain b c1 w1 where p: "on_pre_execute c w = (b, c1, w1)"
    by (cases "on_pre_execute c w") auto
  show ?thesis
  proof (cases b)
    case False
    then show ?thesis using assms p by (auto simp: run_def guarded_def)
  next
    case True
    with assms p obtain stopped where
      wk: "walk fuel t \<lparr>cop = c1\<lparr>c_root := root_entry t\<rparr>, ok = True, visited = []\<rparr> w1
            = Some (stopped, st, w')"
      unfolding run_def
      by (cases "walk fuel t \<lparr>cop = c1\<lparr>c_root := root_entry t\<rparr>, ok = True, visited = []\<rparr> w1")
         auto
    show ?thesis
      using guarded_walk(1) [OF wk, of "sb_target c1"] p by (simp add: guarded_def)
  qed
qed

section \<open>The self-copy guard (C1)\<close>

text \<open>
  Claim C1. During a recursive tree copy, for every node the walk visits, if the node's
  device and inode are those of the target root recorded at the start, the walk is
  aborted at once with a fatal error (the per-node hook returns fail and stop), and no
  node that is the target root is ever copied.

  First, \<open>on_changed_path\<close> returns \<open>FTS_Fail | FTS_Stop\<close> at such a node. Second, the
  walk of the engine stops there: it makes no system call, calls no hook, does not go
  below the node or on to the nodes after it, and its result is a failure. Third, after
  a run no hook has been called for a node that is the file \<open>on_pre_execute\<close> recorded
  as the target. The first part is the source's hook; the walk is the engine modelled
  from the spec.
\<close>

theorem self_copy_guard:
  "(same_file (sb_target c) (fts_statp (c_curr c)) \<longrightarrow>
      (\<exists>c'. on_changed_path c = Some ({FTS_Fail, FTS_Stop}, c')))
   \<and> (same_file (sb_target (cop st)) (fts_statp e) \<longrightarrow>
      (\<exists>st'. walk fuel (FNode e below) st w = Some (True, st', w)
           \<and> walk_list fuel (FNode e below # rest) st w = Some (True, st', w)
           \<and> \<not> ok st' \<and> visited st' = visited st))
   \<and> (run fuel t c w = Some (r, st1, w') \<longrightarrow>
      guarded (sb_target (fst (snd (on_pre_execute c w)))) (visited st1))"
  using on_changed_path_guard [of c] visit_guard [of st e fuel "hook_of e" w]
    guarded_run [of fuel t c w r st1 w']
  by auto

text \<open>
  Copying \<open>/a\<close> into its own directory \<open>/a/d1\<close>: the hook for \<open>/a\<close> runs, the walk stops
  at \<open>/a/d1\<close>.
\<close>

theorem self_copy_guard_witness:
  "same_file (sb_target copier_s) (fts_statp (c_curr copier_s))
   \<and> (\<exists>c'. on_changed_path copier_s = Some ({FTS_Fail, FTS_Stop}, c'))
   \<and> (\<exists>st'. walk 3 (FNode (c_curr copier_s) []) \<lparr>cop = copier_s, ok = True, visited = []\<rparr>
                (world_of quiet) = Some (True, st', world_of quiet) \<and> \<not> ok st')
   \<and> (\<exists>st w'. run 3 tree_s (RecursiveCopier ''/a'' ''/a/d1'' {}) (world_of into_self)
                = Some (False, st, w')
         \<and> map fst (visited st) = [Directory_pre]
         \<and> guarded (dir_stat\<lparr>st_ino := 22\<rparr>) (visited st))"
proof -
  let ?c = "RecursiveCopier ''/a'' ''/a/d1'' {}"
  let ?w = "world_of into_self"
  have s: "same_file (sb_target copier_s) (fts_statp (c_curr copier_s))"
    by (simp add: same_file_def copier_s_def entry_def)
  have "map_option (\<lambda>(r, st, w). (r, map fst (visited st))) (run 3 tree_s ?c ?w)
        = Some (False, [Directory_pre])"
    by code_simp
  then obtain st w' where r: "run 3 tree_s ?c ?w = Some (False, st, w')"
    and v: "map fst (visited st) = [Directory_pre]"
    by (cases "run 3 tree_s ?c ?w") auto
  have p: "sb_target (fst (snd (on_pre_execute ?c ?w))) = dir_stat\<lparr>st_ino := 22\<rparr>"
    by code_simp
  have s2: "same_file (sb_target (cop \<lparr>cop = copier_s, ok = True, visited = []\<rparr>))
              (fts_statp (c_curr copier_s))"
    using s by simp
  note T1 = self_copy_guard [where c = copier_s
          and st = "\<lparr>cop = copier_s, ok = True, visited = []\<rparr>"
          and e = "c_curr copier_s" and fuel = 3 and below = "[]" and w = "world_of quiet"
          and rest = "[]"]
  note T2 = self_copy_guard [where t = tree_s and c = ?c and w = ?w and fuel = 3 and r = False
          and ?st1.0 = st and w' = w']
  have a: "\<exists>c'. on_changed_path copier_s = Some ({FTS_Fail, FTS_Stop}, c')"
    using T1 s by blast
  have b: "\<exists>st'. walk 3 (FNode (c_curr copier_s) []) \<lparr>cop = copier_s, ok = True, visited = []\<rparr>
                (world_of quiet) = Some (True, st', world_of quiet) \<and> \<not> ok st'"
    using T1 s2 by blast
  have c: "guarded (dir_stat\<lparr>st_ino := 22\<rparr>) (visited st)"
    using T2 r p by (simp del: walk.simps walk_list.simps)
  have d: "\<exists>st w'. run 3 tree_s ?c ?w = Some (False, st, w')
         \<and> map fst (visited st) = [Directory_pre]
         \<and> guarded (dir_stat\<lparr>st_ino := 22\<rparr>) (visited st)"
    by (rule exI [of _ st], rule exI [of _ w'], intro conjI, rule r, rule v, rule c)
  show ?thesis
    by (intro conjI, rule s, rule a, rule b, rule d)
qed

section \<open>The target path of a node (C2)\<close>

text \<open>
  Claim C2. For every visited node the computed target path is the target root joined
  with the node's path relative to the source root, with the source root's base name
  as one more segment exactly when MB\_COPY\_EXCLUDE\_TOP\_LEVEL is not set, and the join
  never gives duplicate or missing separators, whether or not the target root ends in a
  separator.

  The code fails the last part. \<open>on_changed_path\<close> adds a separator only when neither
  side has one, but never drops one when both have: with the target \<open>/b/\<close>,
  MB\_COPY\_EXCLUDE\_TOP\_LEVEL and the node \<open>/a/f1\<close> of the source \<open>/a\<close>, the relative
  path is \<open>/f1\<close> and the target path is \<open>/b//f1\<close>.
\<close>

theorem separator_doubled:
  "map_option (\<lambda>r. (fst r, c_curtgtpath (snd r))) (on_changed_path copier_sep)
   = Some (FTS_OK, ''/b//f1'')"
  by (simp add: on_changed_path_def copier_sep_def RecursiveCopier_def entry_def
      dir_stat_def reg_stat_def)

lemma trace_emit: "trace (emit c r w) = trace w @ [(c, r)]"
  by (simp add: emit_def)

lemma os_emit: "os (emit c r w) = os w"
  by (simp add: emit_def)

lemma now_emit: "now (emit c r w) = Suc (now w)"
  by (simp add: emit_def now_def)

lemma copy_stat_new_calls:
  "new_calls w (snd (copy_stat source target w)) =
     (case k_lstat (os w) (now w) source of
        Inl e \<Rightarrow> [Lstat source]
      | Inr sb \<Rightarrow>
          Lstat source # Lchown target (st_uid sb) (st_gid sb) #
          (if k_lchown (os w) (Suc (now w)) target (st_uid sb) (st_gid sb) = None
              \<and> \<not> S_ISLNK (st_mode sb)
           then [Chmod target (st_mode sb AND 0xFFF)] else []))"
  by (simp add: copy_stat_def sys_lstat_def sys_lchown_def sys_chmod_def status_call_def
      new_calls_def new_events_def trace_emit os_emit now_emit
      S_ISUID_def S_ISGID_def S_ISVTX_def S_IRWXU_def S_IRWXG_def S_IRWXO_def
      split: sum.splits option.splits)

section \<open>copy\_stat (C3)\<close>

text \<open>
  Claim C3. The ownership-and-mode copy reads the source's own ownership and mode, sets
  the ownership of the target without dereferencing, and sets the permission bits
  (with set-uid, set-gid and sticky) of the target if and only if the target is not
  itself a symlink.

  The test of \<open>copy_stat\<close> is on the mode \<open>lstat\<close> returned for the source, not on the
  target. With a regular file as source and a symlink as target, \<open>chmod\<close> is called on
  the target; with a symlink as source and a regular file as target, it is not.
\<close>

theorem chmod_follows_source_not_target:
  "(\<forall>n. k_lstat target_link n ''/t'' = Inr lnk_stat) \<and> S_ISLNK (st_mode lnk_stat)
   \<and> new_calls (world_of target_link) (snd (copy_stat ''/s'' ''/t'' (world_of target_link)))
       = [Lstat ''/s'', Lchown ''/t'' 1000 1000, Chmod ''/t'' 0x1A4]
   \<and> (\<forall>n. k_lstat source_link n ''/t'' = Inr reg_stat) \<and> \<not> S_ISLNK (st_mode reg_stat)
   \<and> new_calls (world_of source_link) (snd (copy_stat ''/s'' ''/t'' (world_of source_link)))
       = [Lstat ''/s'', Lchown ''/t'' 1000 1000]"
  by (simp add: copy_stat_new_calls target_link_def source_link_def quiet_def world_of_def
      lnk_stat_def reg_stat_def S_ISLNK_def S_IFMT_def S_IFLNK_def now_def)

text \<open>
  Claim C3 as amended: \<open>copy_stat\<close> calls \<open>lstat\<close> on the source; if that succeeds it
  calls \<open>lchown\<close> on the target with the source's owner and group; and it calls \<open>chmod\<close>
  on the target, with the source's mode masked by 07777, if and only if both calls
  succeeded and the source is not a symlink. These are all its calls.
\<close>

theorem copy_stat_calls:
  "new_calls w (snd (copy_stat source target w)) =
     (case k_lstat (os w) (now w) source of
        Inl e \<Rightarrow> [Lstat source]
      | Inr sb \<Rightarrow>
          Lstat source # Lchown target (st_uid sb) (st_gid sb) #
          (if k_lchown (os w) (Suc (now w)) target (st_uid sb) (st_gid sb) = None
              \<and> \<not> S_ISLNK (st_mode sb)
           then [Chmod target (st_mode sb AND 0xFFF)] else []))"
  by (rule copy_stat_new_calls)

lemma msg_remove_existing_file:
  "remove_existing_file (c\<lparr>c_error_msg := m\<rparr>) w =
     (case remove_existing_file c w of (r, c', w') \<Rightarrow> (r, remsg m (\<not> r) c', w'))"
  by (simp add: remove_existing_file_def remsg_def split: prod.splits)

lemma msg_cp_attrs:
  "cp_attrs (c\<lparr>c_error_msg := m\<rparr>) w =
     (case cp_attrs c w of (r, c', w') \<Rightarrow> (r, remsg m (\<not> r) c', w'))"
  by (simp add: cp_attrs_def remsg_def split: prod.splits bool.splits)

lemma msg_cp_xattrs:
  "cp_xattrs (c\<lparr>c_error_msg := m\<rparr>) w =
     map_option (\<lambda>(r, c', w'). (r, remsg m (\<not> r) c', w')) (cp_xattrs c w)"
  by (simp add: cp_xattrs_def remsg_def split: prod.splits bool.splits option.splits)

lemma msg_cp_both:
  "cp_both (c\<lparr>c_error_msg := m\<rparr>) w =
     map_option (\<lambda>(a, c', w'). (a, remsg m (FTS_Fail \<in> a) c', w')) (cp_both c w)"
  by (auto simp: cp_both_def msg_cp_attrs msg_cp_xattrs remsg_def FTS_OK_def
      split: prod.splits bool.splits option.splits)


lemma msg_create_node:
  "create_node r what (c\<lparr>c_error_msg := m\<rparr>) =
     map_option (\<lambda>(a, c', w'). (a, remsg m (FTS_Fail \<in> a) c', w')) (create_node r what c)"
  by (auto simp: create_node_def msg_cp_both remsg_def split: prod.splits sum.splits)

lemma skip_directory_fails:
  "skip_directory c w = Some (a, c', w') \<Longrightarrow> a = {FTS_Skip, FTS_Fail}"
  by (auto simp: skip_directory_def split: prod.splits option.splits)

lemma msg_on_reached_directory_pre:
  "on_reached_directory_pre (c\<lparr>c_error_msg := m\<rparr>) w =
     map_option (\<lambda>(a, c', w'). (a, remsg m (FTS_Fail \<in> a) c', w'))
       (on_reached_directory_pre c w)"
  by (auto simp: on_reached_directory_pre_def remsg_def FTS_OK_def map_option_case
      dest: skip_directory_fails split: prod.splits sum.splits option.splits)

lemma msg_on_reached_file:
  "on_reached_file fuel (c\<lparr>c_error_msg := m\<rparr>) w =
     map_option (\<lambda>(a, c', w'). (a, remsg m (FTS_Fail \<in> a) c', w')) (on_reached_file fuel c w)"
  by (auto simp: on_reached_file_def msg_remove_existing_file msg_cp_both remsg_def
      split: prod.splits bool.splits option.splits)

lemma msg_on_reached_symlink:
  "on_reached_symlink fuel (c\<lparr>c_error_msg := m\<rparr>) w =
     map_option (\<lambda>(a, c', w'). (a, remsg m (FTS_Fail \<in> a) c', w')) (on_reached_symlink fuel c w)"
  by (auto simp: on_reached_symlink_def msg_remove_existing_file msg_cp_both remsg_def
      split: prod.splits bool.splits option.splits sum.splits)

lemma msg_on_reached_block_device:
  "on_reached_block_device (c\<lparr>c_error_msg := m\<rparr>) w =
     map_option (\<lambda>(a, c', w'). (a, remsg m (FTS_Fail \<in> a) c', w')) (on_reached_block_device c w)"
  by (auto simp: on_reached_block_device_def msg_remove_existing_file msg_create_node remsg_def
      split: prod.splits bool.splits option.splits)

lemma msg_on_reached_character_device:
  "on_reached_character_device (c\<lparr>c_error_msg := m\<rparr>) w =
     map_option (\<lambda>(a, c', w'). (a, remsg m (FTS_Fail \<in> a) c', w'))
       (on_reached_character_device c w)"
  by (auto simp: on_reached_character_device_def msg_remove_existing_file msg_create_node
      remsg_def split: prod.splits bool.splits option.splits)

lemma msg_on_reached_fifo:
  "on_reached_fifo (c\<lparr>c_error_msg := m\<rparr>) w =
     map_option (\<lambda>(a, c', w'). (a, remsg m (FTS_Fail \<in> a) c', w')) (on_reached_fifo c w)"
  by (auto simp: on_reached_fifo_def msg_remove_existing_file msg_create_node remsg_def
      split: prod.splits bool.splits option.splits)


lemma msg_call_hook:
  "call_hook fuel h (c\<lparr>c_error_msg := m\<rparr>) w =
     map_option (\<lambda>(a, c', w'). (a, remsg m (FTS_Fail \<in> a) c', w')) (call_hook fuel h c w)"
  by (cases h)
     (simp_all add: call_hook_def msg_on_reached_directory_pre on_reached_directory_post_def
        msg_cp_both msg_on_reached_file msg_on_reached_symlink msg_on_reached_block_device
        msg_on_reached_character_device msg_on_reached_fifo on_reached_socket_def
        remsg_def FTS_OK_def)

lemma msg_on_changed_path:
  "on_changed_path (c\<lparr>c_error_msg := m\<rparr>) =
     map_option (\<lambda>(a, c'). (a, remsg m (FTS_Fail \<in> a) c')) (on_changed_path c)"
  by (simp add: on_changed_path_def remsg_def FTS_OK_def Let_def)

section \<open>The error message that is kept (C4)\<close>

text \<open>
  Claim C4. In a recursive tree copy in which several per-node failures occur, the
  error message kept for reporting at the end of the walk is the first descriptive
  message that was encountered; later per-node failures do not replace it.

  Every failing step assigns \<open>_error_msg\<close>, so a later failure replaces the message of an
  earlier one. Here the hook for regular files is called for \<open>/a/f1\<close> and then, on the
  same copier, for \<open>/a/f2\<close>; both fail to remove the old path; the message after the
  first call names \<open>/b/a/f1\<close>, the message after the second names \<open>/b/a/f2\<close>.
\<close>

theorem first_message_replaced:
  "(case on_reached_file 3 copier_f1 (world_of read_only) of
      None \<Rightarrow> None
    | Some (a1, c1, w1) \<Rightarrow>
        (case on_reached_file 3 (at_f2 c1) w1 of
           None \<Rightarrow> None
         | Some (a2, c2, w2) \<Rightarrow> Some (a1, c_error_msg c1, a2, c_error_msg c2)))
   = Some ({FTS_Fail}, (''%s: Failed to remove old path: %s'', [Str ''/b/a/f1'', Strerror (Errno 30)]),
           {FTS_Fail}, (''%s: Failed to remove old path: %s'', [Str ''/b/a/f2'', Strerror (Errno 30)]))"
  by code_simp

text \<open>
  Claim C4 as amended: the message kept is that of the last step that failed. A hook
  never reads the message. When it reports \<open>FTS_Fail\<close> the copier it leaves is the same
  whatever message was kept before, so the message is the hook's own; when it does not,
  the message kept before is still there. The same holds of \<open>on_changed_path\<close>.
\<close>

theorem last_failure_message_kept:
  "call_hook fuel h (c\<lparr>c_error_msg := m\<rparr>) w =
     map_option (\<lambda>(a, c', w'). (a, remsg m (FTS_Fail \<in> a) c', w')) (call_hook fuel h c w)
   \<and> on_changed_path (c\<lparr>c_error_msg := m\<rparr>) =
     map_option (\<lambda>(a, c'). (a, remsg m (FTS_Fail \<in> a) c')) (on_changed_path c)"
  by (simp add: msg_call_hook msg_on_changed_path)

section \<open>Exclusive creation of the target file (C7)\<close>

lemma w_emit: "w_umask (emit c r w) = w_umask w" "w_errno (emit c Done w) = w_errno w"
  "w_errno (emit c (Failed e) w) = e" "w_errno (emit c (Fd x) w) = w_errno w"
  "w_errno (emit c (Meta sb) w) = w_errno w" "w_errno (emit c (Mask mm) w) = w_errno w"
  by (simp_all add: emit_def)

lemma sys_umask_eq:
  "sys_umask m w = (w_umask w, emit (Umask m) (Mask (w_umask w)) (w\<lparr>w_umask := m AND 0x1FF\<rparr>))"
  by (simp add: sys_umask_def)

lemma world_simps:
  "os (w\<lparr>w_umask := m\<rparr>) = os w" "now (w\<lparr>w_umask := m\<rparr>) = now w"
  "os (w\<lparr>w_errno := e\<rparr>) = os w" "now (w\<lparr>w_errno := e\<rparr>) = now w"
  "trace (w\<lparr>w_errno := e\<rparr>) = trace w" "w_umask (w\<lparr>w_errno := e\<rparr>) = w_umask w"
  by (simp_all add: now_def)

lemma new_calls_emit:
  "now w0 \<le> now w \<Longrightarrow> new_calls w0 (emit c r w) = new_calls w0 w @ [c]"
  by (simp add: new_calls_def new_events_def emit_def now_def)

lemma new_calls_simps:
  "new_calls w w = []"
  "new_calls w0 (w\<lparr>w_errno := e\<rparr>) = new_calls w0 w"
  "new_calls w0 (w\<lparr>w_umask := m\<rparr>) = new_calls w0 w"
  by (simp_all add: new_calls_def new_events_def)

lemma S_IF_distinct:
  "S_IFREG \<noteq> S_IFBLK" "S_IFREG \<noteq> S_IFCHR" "S_IFREG \<noteq> S_IFIFO" "S_IFREG \<noteq> S_IFLNK"
  "S_IFLNK \<noteq> S_IFBLK" "S_IFLNK \<noteq> S_IFCHR" "S_IFLNK \<noteq> S_IFIFO" "S_IFLNK \<noteq> S_IFREG"
  by (simp_all add: S_IFREG_def S_IFLNK_def S_IFBLK_def S_IFCHR_def S_IFIFO_def)

lemma posix_exclD:
  "posix_excl k \<Longrightarrow> O_CREAT \<in> fl \<Longrightarrow> O_EXCL \<in> fl \<Longrightarrow> k_lstat k n p = Inr sb \<Longrightarrow>
   k_open k n p fl m = Inl EEXIST"
  unfolding posix_excl_def by blast

text \<open>
  Claim C7. In a single-entry copy of a regular file (or of a symlink with
  MB\_COPY\_FOLLOW\_SYMLINKS set), the destination file is opened with exclusive creation:
  if an entry exists at the target path at the moment of the create call (after the
  removal of step 1), the create fails and the whole single-entry copy returns failure
  instead of overwriting the existing entry.

  The kernel keeps the promise of \<open>O_EXCL\<close>; the removal of the target succeeds or finds
  nothing; the source is a regular file, or a symlink that is followed, and can be
  opened; and at the call that creates the target (the fifth call of \<open>copy_file\<close>) an
  entry exists at the target path. Then \<open>copy_file\<close> returns false with \<open>errno\<close> EEXIST,
  and its calls are exactly these: the target is opened once, with
  \<open>O_WRONLY | O_CREAT | O_EXCL\<close> and mode 0666, and after that nothing is read, written,
  removed or changed; the source is closed and the mask restored.
\<close>

theorem exclusive_create:
  assumes "posix_excl (os w)"
    and "k_unlink (os w) (now w + 1) target = None \<or> k_unlink (os w) (now w + 1) target = Some ENOENT"
    and "(if MB_COPY_FOLLOW_SYMLINKS \<in> flags then k_stat (os w) (now w + 2) source
          else k_lstat (os w) (now w + 2) source) = Inr sb"
    and "st_mode sb AND S_IFMT = S_IFREG
         \<or> st_mode sb AND S_IFMT = S_IFLNK \<and> MB_COPY_FOLLOW_SYMLINKS \<in> flags"
    and "k_open (os w) (now w + 3) source {O_RDONLY} 0 = Inr fd"
    and "k_lstat (os w) (now w + 4) target = Inr sb'"
  shows "\<exists>w'. copy_file fuel source target flags w = Some (False, w')
           \<and> w_errno w' = EEXIST
           \<and> new_calls w w' =
               [Umask 0, Unlink target,
                if MB_COPY_FOLLOW_SYMLINKS \<in> flags then Stat source else Lstat source,
                Open source {O_RDONLY} 0, Open target {O_WRONLY, O_CREAT, O_EXCL} 0x1B6,
                Close (int fd), Umask (w_umask w)]"
proof -
  let ?st = "if MB_COPY_FOLLOW_SYMLINKS \<in> flags then Stat source else Lstat source"
  have x: "k_open (os w) (now w + 4) target {O_WRONLY, O_CREAT, O_EXCL} 0x1B6 = Inl EEXIST"
    by (rule posix_exclD [OF assms(1) _ _ assms(6)]) simp_all
  define w1 where "w1 = emit (Umask 0) (Mask (w_umask w)) (w\<lparr>w_umask := 0\<rparr>)"
  have s1: "sys_umask 0 w = (w_umask w, w1)"
    by (simp add: sys_umask_eq w1_def)
  have f1: "os w1 = os w" "now w1 = now w + 1" "w_umask w1 = 0" "new_calls w w1 = [Umask 0]"
    by (simp_all add: w1_def os_emit now_emit w_emit world_simps new_calls_emit new_calls_simps)
  obtain r2 w2 where s2: "sys_unlink target w1 = (r2, w2)"
    by (cases "sys_unlink target w1")
  have f2: "os w2 = os w" "now w2 = now w + 2" "w_umask w2 = 0"
    "new_calls w w2 = [Umask 0, Unlink target]" "r2 = Inr () \<or> w_errno w2 = ENOENT"
    using s2 assms(2) f1
    by (auto simp: sys_unlink_def status_call_def os_emit now_emit w_emit new_calls_emit
        split: option.splits)
  define w3 where "w3 = emit ?st (Meta sb) w2"
  have s3: "(if MB_COPY_FOLLOW_SYMLINKS \<in> flags then sys_stat source w2 else sys_lstat source w2)
            = (Inr sb, w3)"
    using assms(3) f2 by (simp add: sys_stat_def sys_lstat_def w3_def split: if_splits)
  have f3: "os w3 = os w" "now w3 = now w + 3" "w_umask w3 = 0"
    "new_calls w w3 = [Umask 0, Unlink target, ?st]"
    using f2 by (simp_all add: w3_def os_emit now_emit w_emit new_calls_emit)
  define w4 where "w4 = emit (Open source {O_RDONLY} 0) (Fd (int fd)) w3"
  have s4: "sys_open source {O_RDONLY} 0 w3 = (Inr (int fd), w4)"
    using assms(5) f3 by (simp add: sys_open_def w4_def)
  have f4: "os w4 = os w" "now w4 = now w + 4" "w_umask w4 = 0"
    "new_calls w w4 = [Umask 0, Unlink target, ?st, Open source {O_RDONLY} 0]"
    using f3 by (simp_all add: w4_def os_emit now_emit w_emit new_calls_emit)
  define w5 where
    "w5 = emit (Open target {O_WRONLY, O_CREAT, O_EXCL} 0x1B6) (Failed EEXIST) w4"
  have s5: "sys_open target {O_WRONLY, O_CREAT, O_EXCL} 0x1B6 w4 = (Inl EEXIST, w5)"
    using x f4 by (simp add: sys_open_def w5_def)
  have f5: "os w5 = os w" "now w5 = now w + 5" "w_umask w5 = 0" "w_errno w5 = EEXIST"
    "new_calls w w5 = [Umask 0, Unlink target, ?st, Open source {O_RDONLY} 0,
                       Open target {O_WRONLY, O_CREAT, O_EXCL} 0x1B6]"
    using f4 by (simp_all add: w5_def os_emit now_emit w_emit new_calls_emit)
  obtain r6 w6 where s6: "sys_close (int fd) w5 = (r6, w6)"
    by (cases "sys_close (int fd) w5")
  have f6: "w_umask w6 = 0"
    "new_calls w w6 = [Umask 0, Unlink target, ?st, Open source {O_RDONLY} 0,
                       Open target {O_WRONLY, O_CREAT, O_EXCL} 0x1B6, Close (int fd)]"
    "now w \<le> now w6"
    using s6 f5
    by (auto simp: sys_close_def status_call_def os_emit now_emit w_emit new_calls_emit
        split: option.splits)
  have d: "copy_data fuel source target w3 = Some (False, w6\<lparr>w_errno := EEXIST\<rparr>)"
    using s4 s5 s6 f5 by (simp add: copy_data_def copy_data_error_def)
  have sw: "copy_file_switch fuel source target flags sb w3 = Some (False, w6\<lparr>w_errno := EEXIST\<rparr>)"
    using d assms(4) by (auto simp: copy_file_switch_def Let_def S_IF_distinct)
  have b: "copy_file_body fuel source target flags w1 = Some (False, w6\<lparr>w_errno := EEXIST\<rparr>)"
    using s2 f2(5) s3 sw by (auto simp: copy_file_body_def)
  have c: "copy_file fuel source target flags w
           = Some (False, snd (sys_umask (w_umask w) (w6\<lparr>w_errno := EEXIST\<rparr>)))"
    using s1 b by (simp add: copy_file_def)
  show ?thesis
    using c f6
    by (simp add: sys_umask_eq w_emit world_simps new_calls_emit new_calls_simps)
qed

text \<open>
  Under the kernel \<open>racy\<close> the target \<open>/b\<close> is recreated between the removal and the
  create call, and the copy of \<open>/a\<close> to \<open>/b\<close> fails without touching it.
\<close>

theorem exclusive_create_witness:
  "posix_excl racy
   \<and> k_unlink racy 1 ''/b'' = Some ENOENT
   \<and> k_lstat racy 4 ''/b'' = Inr reg_stat
   \<and> (\<exists>w'. copy_file 3 ''/a'' ''/b'' {} (world_of racy) = Some (False, w')
          \<and> w_errno w' = EEXIST
          \<and> new_calls (world_of racy) w' =
              [Umask 0, Unlink ''/b'', Lstat ''/a'', Open ''/a'' {O_RDONLY} 0,
               Open ''/b'' {O_WRONLY, O_CREAT, O_EXCL} 0x1B6, Close 3, Umask 0x12])"
proof -
  let ?W = "world_of racy"
  have p: "posix_excl racy"
    by (auto simp: posix_excl_def racy_def quiet_def split: if_splits)
  have w: "os ?W = racy" "now ?W = 0" "w_umask ?W = 0x12"
    by (simp_all add: world_of_def now_def)
  have u: "k_unlink racy 1 ''/b'' = Some ENOENT"
    by (simp add: racy_def quiet_def)
  have l: "k_lstat racy 4 ''/b'' = Inr reg_stat"
    by (simp add: racy_def quiet_def)
  have h1: "posix_excl (os ?W)" using p w by simp
  have h2: "k_unlink (os ?W) (now ?W + 1) ''/b'' = None
            \<or> k_unlink (os ?W) (now ?W + 1) ''/b'' = Some ENOENT"
    using u w by simp
  have h3: "(if MB_COPY_FOLLOW_SYMLINKS \<in> {} then k_stat (os ?W) (now ?W + 2) ''/a''
             else k_lstat (os ?W) (now ?W + 2) ''/a'') = Inr reg_stat"
    using w by (simp add: racy_def quiet_def)
  have h4: "st_mode reg_stat AND S_IFMT = S_IFREG
            \<or> st_mode reg_stat AND S_IFMT = S_IFLNK \<and> MB_COPY_FOLLOW_SYMLINKS \<in> {}"
    by (simp add: reg_stat_def S_IFMT_def S_IFREG_def)
  have h5: "k_open (os ?W) (now ?W + 3) ''/a'' {O_RDONLY} 0 = Inr 3"
    using w by (simp add: racy_def quiet_def)
  have h6: "k_lstat (os ?W) (now ?W + 4) ''/b'' = Inr reg_stat"
    using l w by simp
  have "\<exists>w'. copy_file 3 ''/a'' ''/b'' {} ?W = Some (False, w')
          \<and> w_errno w' = EEXIST
          \<and> new_calls ?W w' =
              [Umask 0, Unlink ''/b'', Lstat ''/a'', Open ''/a'' {O_RDONLY} 0,
               Open ''/b'' {O_WRONLY, O_CREAT, O_EXCL} 0x1B6, Close 3, Umask 0x12]"
    using exclusive_create [OF h1 h2 h3 h4 h5 h6, of 3] w by simp
  with p u l show ?thesis by simp
qed

section \<open>readlink2 (C9)\<close>

lemma new_events_emit:
  "new_events w (emit c r w) = [(c, r)]"
  by (simp add: new_events_def emit_def)

lemma new_events_step:
  "trace w' = trace (emit c r w) @ evs \<Longrightarrow> new_events w w' = (c, r) # new_events (emit c r w) w'"
  by (simp add: new_events_def emit_def)

lemma readlink2_loop_extends:
  "readlink2_loop fuel p sz w = Some (r, w') \<Longrightarrow> \<exists>evs. trace w' = trace w @ evs"
proof (induction fuel arbitrary: sz w)
  case 0
  then show ?case by simp
next
  case (Suc fuel)
  show ?case
  proof (cases "k_readlink (os w) (now w) p")
    case (Inl e)
    then show ?thesis using Suc.prems by (auto simp: sys_readlink_def emit_def)
  next
    case (Inr t)
    show ?thesis
    proof (cases "length (take (sz - 1) t) = sz - 1")
      case True
      with Inr Suc.prems have
        "readlink2_loop fuel p (2 * sz) (emit (Readlink p (sz - 1)) (Bytes (take (sz - 1) t)) w)
         = Some (r, w')"
        by (simp add: sys_readlink_def del: length_take)
      from Suc.IH [OF this] show ?thesis by (auto simp: emit_def)
    next
      case False
      with Inr Suc.prems have "w' = emit (Readlink p (sz - 1)) (Bytes (take (sz - 1) t)) w"
        by (simp add: sys_readlink_def del: length_take)
      then show ?thesis by (simp add: emit_def)
    qed
  qed
qed

lemma regrown_readlink2_loop:
  "readlink2_loop fuel p sz w = Some (r, w') \<Longrightarrow> regrown p sz (new_events w w') r"
proof (induction fuel arbitrary: sz w)
  case 0
  then show ?case by simp
next
  case (Suc fuel)
  show ?case
  proof (cases "k_readlink (os w) (now w) p")
    case (Inl e)
    then show ?thesis using Suc.prems by (auto simp: sys_readlink_def new_events_emit)
  next
    case (Inr t)
    let ?w1 = "emit (Readlink p (sz - 1)) (Bytes (take (sz - 1) t)) w"
    show ?thesis
    proof (cases "length (take (sz - 1) t) = sz - 1")
      case True
      with Inr Suc.prems have l: "readlink2_loop fuel p (2 * sz) ?w1 = Some (r, w')"
        by (simp add: sys_readlink_def del: length_take)
      from readlink2_loop_extends [OF l] obtain evs where "trace w' = trace ?w1 @ evs" ..
      then have "new_events w w' = (Readlink p (sz - 1), Bytes (take (sz - 1) t)) # new_events ?w1 w'"
        by (rule new_events_step)
      with Suc.IH [OF l] True show ?thesis by simp
    next
      case False
      then have lt: "length (take (sz - 1) t) < sz - 1" by simp
      from False Inr Suc.prems
      have "w' = ?w1" and "r = Some (takeWhile (\<lambda>c. c \<noteq> CHR 0x00) (take (sz - 1) t))"
        by (simp_all add: sys_readlink_def del: length_take)
      with False lt show ?thesis
        by (simp add: new_events_emit del: length_take)
    qed
  qed
qed


lemma readlink2_loop_fuel:
  "readlink2_loop fuel p sz w = Some x \<Longrightarrow> readlink2_loop (fuel + n) p sz w = Some x"
proof (induction fuel arbitrary: sz w)
  case 0
  then show ?case by simp
next
  case (Suc fuel)
  show ?case
  proof (cases "sys_readlink p (sz - 1) w")
    case (Pair rr w1)
    show ?thesis
    proof (cases rr)
      case (Inl e)
      with Pair Suc.prems show ?thesis by simp
    next
      case (Inr buf)
      show ?thesis
      proof (cases "length buf = sz - 1")
        case True
        with Pair Inr Suc.prems have "readlink2_loop fuel p (2 * sz) w1 = Some x" by simp
        from Suc.IH [OF this] Pair Inr True show ?thesis by simp
      next
        case False
        with Pair Inr Suc.prems show ?thesis by simp
      qed
    qed
  qed
qed

lemma readlink2_loop_stable:
  assumes "\<forall>n. k_readlink (os w) n p = Inr tgt"
    and "\<forall>i<k. sz * 2 ^ i - 1 \<le> length tgt"
    and "length tgt < sz * 2 ^ k - 1"
  shows "\<exists>w' evs. readlink2_loop (Suc k) p sz w
            = Some (Some (takeWhile (\<lambda>c. c \<noteq> CHR 0x00) tgt), w')
          \<and> trace w' = trace w @ evs
          \<and> map fst evs = map (\<lambda>i. Readlink p (sz * 2 ^ i - 1)) [0..<Suc k]"
  using assms
proof (induction k arbitrary: sz w)
  case 0
  then have k: "k_readlink (os w) (now w) p = Inr tgt" and lt: "length tgt < sz - 1" by simp_all
  from lt have t: "take (sz - 1) tgt = tgt" by simp
  let ?w1 = "emit (Readlink p (sz - 1)) (Bytes tgt) w"
  from k t lt have "readlink2_loop (Suc 0) p sz w
      = Some (Some (takeWhile (\<lambda>c. c \<noteq> CHR 0x00) tgt), ?w1)"
    by (simp add: sys_readlink_def)
  moreover have "trace ?w1 = trace w @ [(Readlink p (sz - 1), Bytes tgt)]" by (simp add: emit_def)
  ultimately show ?case by fastforce
next
  case (Suc k)
  from Suc.prems have k: "k_readlink (os w) (now w) p = Inr tgt" by simp
  from Suc.prems(2) have ge: "sz - 1 \<le> length tgt" by force
  then have len: "length (take (sz - 1) tgt) = sz - 1" by simp
  let ?w1 = "emit (Readlink p (sz - 1)) (Bytes (take (sz - 1) tgt)) w"
  have st: "\<forall>n. k_readlink (os ?w1) n p = Inr tgt" using Suc.prems(1) by (simp add: emit_def)
  have lo: "\<forall>i<k. 2 * sz * 2 ^ i - 1 \<le> length tgt"
  proof (intro allI impI)
    fix i assume "i < k"
    then have "Suc i < Suc k" by simp
    with Suc.prems(2) have "sz * 2 ^ Suc i - 1 \<le> length tgt" by blast
    then show "2 * sz * 2 ^ i - 1 \<le> length tgt" by (simp add: mult.assoc mult.left_commute)
  qed
  from Suc.prems(3) have hi: "length tgt < 2 * sz * 2 ^ k - 1"
    by (simp add: mult.assoc mult.left_commute)
  from Suc.IH [OF st lo hi] obtain w' evs where
    r: "readlink2_loop (Suc k) p (2 * sz) ?w1
          = Some (Some (takeWhile (\<lambda>c. c \<noteq> CHR 0x00) tgt), w')"
    and tr: "trace w' = trace ?w1 @ evs"
    and cs: "map fst evs = map (\<lambda>i. Readlink p (2 * sz * 2 ^ i - 1)) [0..<Suc k]"
    by blast
  from k len r have "readlink2_loop (Suc (Suc k)) p sz w
      = Some (Some (takeWhile (\<lambda>c. c \<noteq> CHR 0x00) tgt), w')"
    by (simp add: sys_readlink_def del: length_take readlink2_loop.simps(2)
        add: readlink2_loop.simps(2) [of "Suc k" p sz w])
  moreover from tr have "trace w' = trace w @ ((Readlink p (sz - 1), Bytes (take (sz - 1) tgt)) # evs)"
    by (simp add: emit_def)
  moreover have "map fst ((Readlink p (sz - 1), Bytes (take (sz - 1) tgt)) # evs)
      = map (\<lambda>i. Readlink p (sz * 2 ^ i - 1)) [0..<Suc (Suc k)]"
  proof -
    have "[0..<Suc (Suc k)] = 0 # map Suc [0..<Suc k]"
      by (simp only: upt_conv_Cons [of 0 "Suc (Suc k)"] map_Suc_upt)
    then show ?thesis using cs by (simp add: comp_def mult.assoc mult.left_commute del: upt_Suc)
  qed
  ultimately show ?case by blast
qed

lemma readlink2_loop_whole:
  "readlink2_loop fuel p sz w = Some (Some x, w') \<Longrightarrow>
   \<exists>tgt. k_readlink (os w) (now w' - 1) p = Inr tgt \<and> x = takeWhile (\<lambda>c. c \<noteq> CHR 0x00) tgt"
proof (induction fuel arbitrary: sz w)
  case 0
  then show ?case by simp
next
  case (Suc fuel)
  show ?case
  proof (cases "k_readlink (os w) (now w) p")
    case (Inl e)
    then show ?thesis using Suc.prems by (simp add: sys_readlink_def)
  next
    case (Inr t)
    let ?w1 = "emit (Readlink p (sz - 1)) (Bytes (take (sz - 1) t)) w"
    show ?thesis
    proof (cases "length (take (sz - 1) t) = sz - 1")
      case True
      with Inr Suc.prems have "readlink2_loop fuel p (2 * sz) ?w1 = Some (Some x, w')"
        by (simp add: sys_readlink_def del: length_take)
      from Suc.IH [OF this] show ?thesis by (simp add: os_emit)
    next
      case False
      then have "length t < sz - 1" by simp
      then have t: "take (sz - 1) t = t" by simp
      from False Inr Suc.prems
      have "w' = ?w1" and "x = takeWhile (\<lambda>c. c \<noteq> CHR 0x00) (take (sz - 1) t)"
        by (simp_all add: sys_readlink_def del: length_take)
      with Inr t show ?thesis by (simp add: now_emit)
    qed
  qed
qed

lemma buffer_outgrows:
  "\<exists>k. (\<forall>i<k. 64 * 2 ^ i - 1 \<le> (n::nat)) \<and> n < 64 * 2 ^ k - 1"
proof -
  have "n < 2 ^ n" by (rule less_exp)
  moreover have "(1::nat) \<le> 2 ^ n" by simp
  ultimately have "n < 64 * 2 ^ n - 1" by linarith
  then have ex: "\<exists>k. n < 64 * 2 ^ k - 1" by (rule exI)
  define k where "k = (LEAST k. n < 64 * 2 ^ k - 1)"
  from ex have "n < 64 * 2 ^ k - 1" unfolding k_def by (rule LeastI_ex)
  moreover have "\<forall>i<k. 64 * 2 ^ i - 1 \<le> n"
  proof (intro allI impI)
    fix i assume "i < k"
    then have "\<not> n < 64 * 2 ^ i - 1" unfolding k_def by (rule not_less_Least)
    then show "64 * 2 ^ i - 1 \<le> n" by simp
  qed
  ultimately show ?thesis by blast
qed

text \<open>
  Claim C9. For every symlink path whose reads succeed, the link-target reader returns
  the complete link target string without truncation: it grows its buffer by doubling,
  and any read that exactly fills the available buffer space triggers a regrow and
  re-read rather than being accepted; the loop terminates for every finite link-target
  length, and any underlying read error makes it return failure.

  First, when every \<open>readlink\<close> of the path yields the target \<open>tgt\<close> (which, as a file
  name, holds no NUL), there is a number \<open>k\<close> of regrows such that \<open>readlink2\<close> returns
  \<open>tgt\<close> itself whenever it is given more than \<open>k\<close> iterations: it terminates, after the
  reads for 63, 127, ... bytes, where \<open>k\<close> is the first size that leaves space after the
  target. Second, under any kernel, whenever \<open>readlink2\<close> returns, its reads are
  \<open>regrown\<close>: a failed read makes the result the failure, a read that fills the space is
  never the result, and the result is a read that left space. Such a result is the whole
  target the kernel gave at the last read, up to its first NUL, not a part of it.
\<close>

theorem readlink2_whole_target:
  "((\<forall>n. k_readlink (os w) n p = Inr tgt) \<and> CHR 0x00 \<notin> set tgt \<longrightarrow>
      (\<exists>k w'. (\<forall>fuel>k. readlink2 fuel p w = Some (Some tgt, w'))
         \<and> new_calls w w' = map (\<lambda>i. Readlink p (64 * 2 ^ i - 1)) [0..<Suc k]
         \<and> (\<forall>i<k. 64 * 2 ^ i - 1 \<le> length tgt)
         \<and> length tgt < 64 * 2 ^ k - 1))
   \<and> (readlink2 fuel' p w = Some (r, w2) \<longrightarrow>
        regrown p 64 (new_events w w2) r
        \<and> (\<forall>x. r = Some x \<longrightarrow>
              (\<exists>t. k_readlink (os w) (now w2 - 1) p = Inr t
                 \<and> x = takeWhile (\<lambda>c. c \<noteq> CHR 0x00) t)))"
proof (intro conjI impI allI)
  assume a: "(\<forall>n. k_readlink (os w) n p = Inr tgt) \<and> CHR 0x00 \<notin> set tgt"
  then have st: "\<forall>n. k_readlink (os w) n p = Inr tgt" and nul: "CHR 0x00 \<notin> set tgt" by simp_all
  from buffer_outgrows [of "length tgt"] obtain k where
    lo: "\<forall>i<k. 64 * 2 ^ i - 1 \<le> length tgt" and hi: "length tgt < 64 * 2 ^ k - 1" by blast
  from nul have tw: "takeWhile (\<lambda>c. c \<noteq> CHR 0x00) tgt = tgt"
    by (intro takeWhile_eq_all_conv [THEN iffD2]) metis
  from readlink2_loop_stable [OF st lo hi] tw obtain w' evs where
    r: "readlink2_loop (Suc k) p 64 w = Some (Some tgt, w')"
    and tr: "trace w' = trace w @ evs"
    and cs: "map fst evs = map (\<lambda>i. Readlink p (64 * 2 ^ i - 1)) [0..<Suc k]"
    by auto
  have "\<forall>fuel>k. readlink2 fuel p w = Some (Some tgt, w')"
  proof (intro allI impI)
    fix fuel assume "k < fuel"
    then have "fuel = Suc k + (fuel - Suc k)" by simp
    with readlink2_loop_fuel [OF r, of "fuel - Suc k"] show "readlink2 fuel p w = Some (Some tgt, w')"
      by (simp add: readlink2_def)
  qed
  moreover from tr cs have "new_calls w w' = map (\<lambda>i. Readlink p (64 * 2 ^ i - 1)) [0..<Suc k]"
    by (simp add: new_calls_def new_events_def)
  ultimately show "\<exists>k w'. (\<forall>fuel>k. readlink2 fuel p w = Some (Some tgt, w'))
         \<and> new_calls w w' = map (\<lambda>i. Readlink p (64 * 2 ^ i - 1)) [0..<Suc k]
         \<and> (\<forall>i<k. 64 * 2 ^ i - 1 \<le> length tgt)
         \<and> length tgt < 64 * 2 ^ k - 1"
    using lo hi by blast
next
  assume "readlink2 fuel' p w = Some (r, w2)"
  then show "regrown p 64 (new_events w w2) r"
    unfolding readlink2_def by (rule regrown_readlink2_loop)
next
  fix x
  assume "readlink2 fuel' p w = Some (r, w2)" and "r = Some x"
  then have "readlink2_loop fuel' p 64 w = Some (Some x, w2)" by (simp add: readlink2_def)
  then show "\<exists>t. k_readlink (os w) (now w2 - 1) p = Inr t
      \<and> x = takeWhile (\<lambda>c. c \<noteq> CHR 0x00) t"
    by (rule readlink2_loop_whole)
qed

text \<open>
  A target of 63 characters fills the space of the first buffer: it is read again with a
  buffer of 128 bytes, and returned whole.
\<close>

theorem readlink2_whole_target_witness:
  "(\<forall>n. k_readlink (os (world_of long_link)) n ''/l'' = Inr (replicate 63 (CHR ''x'')))
   \<and> CHR 0x00 \<notin> set (replicate 63 (CHR ''x''))
   \<and> (\<exists>w'. readlink2 2 ''/l'' (world_of long_link) = Some (Some (replicate 63 (CHR ''x'')), w')
        \<and> new_calls (world_of long_link) w' = [Readlink ''/l'' 63, Readlink ''/l'' 127]
        \<and> regrown ''/l'' 64 (new_events (world_of long_link) w') (Some (replicate 63 (CHR ''x''))))"
proof -
  let ?w = "world_of long_link" and ?t = "replicate 63 (CHR ''x'')"
  have h1: "(\<forall>n. k_readlink (os ?w) n ''/l'' = Inr ?t) \<and> CHR 0x00 \<notin> set ?t"
    by (simp add: world_of_def long_link_def)
  from readlink2_whole_target [of ?w "''/l''" ?t] h1 obtain k w' where
    r: "\<forall>fuel>k. readlink2 fuel ''/l'' ?w = Some (Some ?t, w')"
    and cs: "new_calls ?w w' = map (\<lambda>i. Readlink ''/l'' (64 * 2 ^ i - 1)) [0..<Suc k]"
    and lo: "\<forall>i<k. 64 * 2 ^ i - 1 \<le> length ?t"
    and hi: "length ?t < 64 * 2 ^ k - 1"
    by blast
  from hi have "k \<noteq> 0" by (intro notI) simp
  moreover have "\<not> 1 < k"
  proof
    assume "1 < k"
    with lo have "64 * 2 ^ 1 - 1 \<le> length ?t" by blast
    then show False by simp
  qed
  ultimately have k: "k = 1" by simp
  with r have r2: "readlink2 2 ''/l'' ?w = Some (Some ?t, w')" by simp
  from cs k have cs2: "new_calls ?w w' = [Readlink ''/l'' 63, Readlink ''/l'' 127]" by simp
  from readlink2_whole_target [of ?w "''/l''" ?t 2 "Some ?t" w'] r2
  have "regrown ''/l'' 64 (new_events ?w w') (Some ?t)" by blast
  with h1 r2 cs2 show ?thesis by blast
qed

section \<open>copy\_data\_fd (C6)\<close>

lemma write_loop_flushes:
  "write_loop fuel ft out w = Some (fin, w1) \<Longrightarrow> out \<noteq> [] \<Longrightarrow>
   \<exists>evs. trace w1 = trace w @ evs
     \<and> (\<not> fin \<longrightarrow> flushes fs ft out evs False)
     \<and> (fin \<longrightarrow> (\<forall>es r. flushes fs ft [] es r \<longrightarrow> flushes fs ft out (evs @ es) r))"
proof (induction fuel arbitrary: out w)
  case 0
  then show ?case by simp
next
  case (Suc fuel)
  show ?case
  proof (cases "k_write (os w) (now w) ft out")
    case (Inl e)
    with Suc.prems have "fin = False" and "w1 = emit (Write ft out) (Failed e) w"
      by (simp_all add: sys_write_def)
    with Suc.prems(2) show ?thesis by (simp add: trace_emit)
  next
    case (Inr k)
    define m where "m = min k (length out)"
    let ?w = "emit (Write ft out) (Count m) w"
    from Inr have wr: "sys_write ft out w = (Inr m, ?w)" by (simp add: sys_write_def m_def)
    have le: "m \<le> length out" by (simp add: m_def)
    show ?thesis
    proof (cases "length out - m > 0")
      case True
      with wr Suc.prems have l: "write_loop fuel ft (drop m out) ?w = Some (fin, w1)"
        by simp
      from True have ne: "drop m out \<noteq> []" by simp
      from Suc.IH [OF l ne] obtain evs where
        tr: "trace w1 = trace ?w @ evs"
        and f: "\<not> fin \<longrightarrow> flushes fs ft (drop m out) evs False"
        and t: "fin \<longrightarrow> (\<forall>es r. flushes fs ft [] es r \<longrightarrow> flushes fs ft (drop m out) (evs @ es) r)"
        by blast
      from tr have "trace w1 = trace w @ ((Write ft out, Count m) # evs)" by (simp add: trace_emit)
      moreover from f le Suc.prems(2)
      have "\<not> fin \<longrightarrow> flushes fs ft out ((Write ft out, Count m) # evs) False" by simp
      moreover from t le Suc.prems(2)
      have "fin \<longrightarrow> (\<forall>es r. flushes fs ft [] es r
              \<longrightarrow> flushes fs ft out (((Write ft out, Count m) # evs) @ es) r)" by simp
      ultimately show ?thesis by blast
    next
      case False
      with wr Suc.prems have "fin = True" and "w1 = ?w" by simp_all
      moreover from False have "drop m out = []" by simp
      ultimately show ?thesis using Suc.prems(2) le
        by (intro exI [of _ "[(Write ft out, Count m)]"]) (simp add: trace_emit)
    qed
  qed
qed

lemma copy_data_fd_flushes:
  "copy_data_fd fuel fs ft w = Some (r, w') \<Longrightarrow>
   \<exists>evs. trace w' = trace w @ evs \<and> flushes fs ft [] evs r"
proof (induction fuel arbitrary: w)
  case 0
  then show ?case by simp
next
  case (Suc fuel)
  show ?case
  proof (cases "k_read (os w) (now w) fs")
    case (Inl e)
    with Suc.prems have "r = False" and "w' = emit (Read fs 10240) (Failed e) w"
      by (simp_all add: sys_read_def)
    then show ?thesis by (simp add: trace_emit)
  next
    case (Inr d)
    let ?buf = "take 10240 d"
    let ?e = "(Read fs 10240, Bytes ?buf)"
    let ?w1 = "emit (Read fs 10240) (Bytes ?buf) w"
    from Inr have rd: "sys_read fs 10240 w = (Inr ?buf, ?w1)" by (simp add: sys_read_def)
    show ?thesis
    proof (cases "?buf = []")
      case True
      with rd Suc.prems have "r = True" and "w' = ?w1" by simp_all
      with True show ?thesis by (simp add: trace_emit)
    next
      case False
      then have pos: "length ?buf > 0" by simp
      have le: "length ?buf \<le> 10240" by simp
      from rd pos Suc.prems obtain fin w2 where
        wl: "write_loop fuel ft ?buf ?w1 = Some (fin, w2)"
        by (cases "write_loop fuel ft ?buf ?w1") (auto simp del: length_take take_eq_Nil)
      from write_loop_flushes [OF wl False, of fs] obtain evs1 where
        tr1: "trace w2 = trace ?w1 @ evs1"
        and f: "\<not> fin \<longrightarrow> flushes fs ft ?buf evs1 False"
        and t: "fin \<longrightarrow> (\<forall>es r. flushes fs ft [] es r \<longrightarrow> flushes fs ft ?buf (evs1 @ es) r)"
        by blast
      show ?thesis
      proof (cases fin)
        case False
        with rd pos wl Suc.prems have "r = False" and "w' = w2"
          by (simp_all del: length_take take_eq_Nil)
        moreover from tr1 have "trace w2 = trace w @ (?e # evs1)" by (simp add: trace_emit)
        moreover from f False \<open>?buf \<noteq> []\<close> le have "flushes fs ft [] (?e # evs1) False"
          by (simp del: length_take take_eq_Nil)
        ultimately show ?thesis by blast
      next
        case True
        with rd pos wl Suc.prems have c: "copy_data_fd fuel fs ft w2 = Some (r, w')"
          by (simp del: length_take take_eq_Nil)
        from Suc.IH [OF c] obtain evs2 where
          tr2: "trace w' = trace w2 @ evs2" and f2: "flushes fs ft [] evs2 r" by blast
        from tr1 tr2 have "trace w' = trace w @ (?e # evs1 @ evs2)" by (simp add: trace_emit)
        moreover from t True f2 have "flushes fs ft ?buf (evs1 @ evs2) r" by blast
        with \<open>?buf \<noteq> []\<close> le have "flushes fs ft [] (?e # evs1 @ evs2) r"
          by (simp del: length_take take_eq_Nil)
        ultimately show ?thesis by blast
      qed
    qed
  qed
qed

lemma flushes_failed:
  "flushes fs ft out es r \<Longrightarrow> r = list_all (\<lambda>e. \<not> failed e) es"
proof (induction es arbitrary: out)
  case Nil
  then show ?case by simp
next
  case (Cons e es)
  then show ?case
    by (cases "snd e") (auto simp: failed_def split: if_splits)
qed

lemma flushes_last:
  "flushes fs ft out es True \<Longrightarrow> last es = (Read fs 10240, Bytes [])"
proof (induction es arbitrary: out)
  case Nil
  then show ?case by simp
next
  case (Cons e es)
  then show ?case
    by (cases e; cases "snd e") (auto split: if_splits)
qed

lemma flushes_bytes:
  "flushes fs ft out es True \<Longrightarrow> bytes_written ft es = out @ bytes_read fs es"
proof (induction es arbitrary: out)
  case Nil
  then show ?case by simp
next
  case (Cons e es)
  then show ?case
    by (cases e; cases "snd e")
      (auto simp: bytes_written_def bytes_read_def chunk_read_def chunk_written_def
            split: if_splits)
qed

lemma flushes_prefix:
  "flushes fs ft out es r \<Longrightarrow> i < length es \<Longrightarrow> fst (es ! i) = Read fs 10240 \<Longrightarrow>
   bytes_written ft (take i es) = out @ bytes_read fs (take i es)"
proof (induction es arbitrary: out i)
  case Nil
  then show ?case by simp
next
  case (Cons e es)
  show ?case
  proof (cases i)
    case 0
    with Cons.prems show ?thesis
      by (auto simp: bytes_written_def bytes_read_def split: if_splits)
  next
    case (Suc j)
    with Cons.prems have j: "j < length es" and rd: "fst (es ! j) = Read fs 10240" by simp_all
    show ?thesis
    proof (cases "out = []")
      case True
      with Cons.prems(1) j obtain d where e: "e = (Read fs 10240, Bytes d)"
        and fl: "flushes fs ft d es r"
        by (cases e; cases "snd e") (auto split: if_splits)
      from Cons.IH [OF fl j rd] True e Suc show ?thesis
        by (simp add: bytes_written_def bytes_read_def chunk_read_def chunk_written_def)
    next
      case False
      with Cons.prems(1) j obtain k where e: "e = (Write ft out, Count k)"
        and fl: "flushes fs ft (drop k out) es r"
        by (cases e; cases "snd e") (auto split: if_splits)
      from Cons.IH [OF fl j rd] e Suc show ?thesis
        by (simp add: bytes_written_def bytes_read_def chunk_read_def chunk_written_def)
    qed
  qed
qed


lemma write_loop_total:
  assumes "\<forall>n d. d \<noteq> [] \<longrightarrow> k_write (os w) n ft d \<noteq> Inr 0"
    and "length out \<le> fuel" and "out \<noteq> []"
  shows "\<exists>fin w1. write_loop fuel ft out w = Some (fin, w1) \<and> os w1 = os w \<and> now w < now w1"
  using assms
proof (induction fuel arbitrary: out w)
  case 0
  then show ?case by simp
next
  case (Suc fuel)
  show ?case
  proof (cases "k_write (os w) (now w) ft out")
    case (Inl e)
    then show ?thesis by (auto simp: sys_write_def os_emit now_emit)
  next
    case (Inr k)
    define m where "m = min k (length out)"
    let ?w = "emit (Write ft out) (Count m) w"
    from Inr have wr: "sys_write ft out w = (Inr m, ?w)" by (simp add: sys_write_def m_def)
    have "k \<noteq> 0"
    proof
      assume "k = 0"
      with Inr have "k_write (os w) (now w) ft out = Inr 0" by simp
      with Suc.prems(1,3) show False by blast
    qed
    with Suc.prems(3) have pos: "0 < m" by (simp add: m_def)
    show ?thesis
    proof (cases "length out - m > 0")
      case True
      then have ne: "drop m out \<noteq> []" by simp
      from pos Suc.prems(2) True have le: "length (drop m out) \<le> fuel" by simp
      from Suc.prems(1) have pr: "\<forall>n d. d \<noteq> [] \<longrightarrow> k_write (os ?w) n ft d \<noteq> Inr 0"
        by (simp add: os_emit)
      from Suc.IH [OF pr le ne] obtain fin w1 where
        "write_loop fuel ft (drop m out) ?w = Some (fin, w1)" "os w1 = os ?w" "now ?w < now w1"
        by blast
      with wr True show ?thesis by (simp add: os_emit now_emit)
    next
      case False
      with wr show ?thesis by (auto simp: os_emit now_emit)
    qed
  qed
qed

lemma copy_data_fd_total:
  assumes "\<forall>n d. d \<noteq> [] \<longrightarrow> k_write (os w) n ft d \<noteq> Inr 0"
    and "\<forall>n\<ge>N. k_read (os w) n fs = Inr [] \<or> (\<exists>e. k_read (os w) n fs = Inl e)"
    and "(N - now w) + 10241 \<le> fuel"
  shows "\<exists>r w'. copy_data_fd fuel fs ft w = Some (r, w')"
  using assms
proof (induction fuel arbitrary: w)
  case 0
  then show ?case by simp
next
  case (Suc fuel)
  show ?case
  proof (cases "k_read (os w) (now w) fs")
    case (Inl e)
    then show ?thesis by (auto simp: sys_read_def)
  next
    case (Inr d)
    let ?buf = "take 10240 d"
    let ?w1 = "emit (Read fs 10240) (Bytes ?buf) w"
    from Inr have rd: "sys_read fs 10240 w = (Inr ?buf, ?w1)" by (simp add: sys_read_def)
    show ?thesis
    proof (cases "?buf = []")
      case True
      with rd show ?thesis by auto
    next
      case False
      then have pos: "length ?buf > 0" by simp
      from False have "d \<noteq> []" by auto
      have lt: "now w < N"
      proof (rule ccontr)
        assume "\<not> now w < N"
        then have "N \<le> now w" by simp
        with Suc.prems(2) have "k_read (os w) (now w) fs = Inr [] \<or> (\<exists>e. k_read (os w) (now w) fs = Inl e)"
          by blast
        with Inr \<open>d \<noteq> []\<close> show False by auto
      qed
      from Suc.prems(3) have le: "length ?buf \<le> fuel" by simp
      from Suc.prems(1) have pr: "\<forall>n d. d \<noteq> [] \<longrightarrow> k_write (os ?w1) n ft d \<noteq> Inr 0"
        by (simp add: os_emit)
      from write_loop_total [OF pr le False] obtain fin w2 where
        wl: "write_loop fuel ft ?buf ?w1 = Some (fin, w2)"
        and o: "os w2 = os w" and n: "now w < now w2"
        by (auto simp: os_emit now_emit)
      show ?thesis
      proof (cases fin)
        case False
        with rd pos wl show ?thesis by (auto simp del: length_take take_eq_Nil)
      next
        case True
        from Suc.prems(1) o have p1: "\<forall>n d. d \<noteq> [] \<longrightarrow> k_write (os w2) n ft d \<noteq> Inr 0" by simp
        from Suc.prems(2) o
        have p2: "\<forall>n\<ge>N. k_read (os w2) n fs = Inr [] \<or> (\<exists>e. k_read (os w2) n fs = Inl e)" by simp
        from Suc.prems(3) lt n have p3: "(N - now w2) + 10241 \<le> fuel" by linarith
        from Suc.IH [OF p1 p2 p3] obtain r w' where "copy_data_fd fuel fs ft w2 = Some (r, w')"
          by blast
        with rd pos wl True show ?thesis by (simp del: length_take take_eq_Nil)
      qed
    qed
  qed
qed

text \<open>
  Claim C6. For every readable source stream and writable destination stream, the
  byte-stream copier transfers all bytes of each read chunk before reading the next
  chunk, looping when a single write accepts fewer bytes than requested, and returns
  success if and only if a read eventually returns 0 (source exhausted) with no
  intervening read or write error; so on success the destination has received exactly
  the bytes read from the source, in order.

  First, whenever \<open>copy_data_fd\<close> returns, its calls are those of \<open>flushes\<close>: every chunk is
  written, over as many writes as it takes, before the next \<open>read\<close>. Its result is true
  exactly when none of its calls failed; then its last call is a \<open>read\<close> that returned no
  byte, and the bytes written to the target are the bytes read from the source. At
  every \<open>read\<close>, the bytes written so far are the bytes read so far. Second, it does
  return: when the target \<open>progresses\<close> and the source is \<open>exhausted\<close> from the call
  number \<open>N\<close> on, \<open>N + 10241\<close> iterations are enough.
\<close>

theorem copy_data_fd_transfers:
  "(copy_data_fd fuel fs ft w = Some (r, w') \<longrightarrow>
      flushes fs ft [] (new_events w w') r
      \<and> r = list_all (\<lambda>e. \<not> failed e) (new_events w w')
      \<and> (r \<longrightarrow> last (new_events w w') = (Read fs 10240, Bytes [])
             \<and> bytes_written ft (new_events w w') = bytes_read fs (new_events w w'))
      \<and> (\<forall>i<length (new_events w w'). fst (new_events w w' ! i) = Read fs 10240 \<longrightarrow>
            bytes_written ft (take i (new_events w w')) = bytes_read fs (take i (new_events w w'))))
   \<and> (progresses ft (os w) \<and> exhausted fs N (os w)
      \<longrightarrow> (\<exists>r w'. copy_data_fd (N + 10241) fs ft w = Some (r, w')))"
proof (intro conjI impI)
  assume "copy_data_fd fuel fs ft w = Some (r, w')"
  from copy_data_fd_flushes [OF this] obtain evs where
    "trace w' = trace w @ evs" and "flushes fs ft [] evs r" by blast
  then have fl: "flushes fs ft [] (new_events w w') r" by (simp add: new_events_def)
  then show "flushes fs ft [] (new_events w w') r" .
  from fl show "r = list_all (\<lambda>e. \<not> failed e) (new_events w w')" by (rule flushes_failed)
  show "\<forall>i<length (new_events w w'). fst (new_events w w' ! i) = Read fs 10240 \<longrightarrow>
          bytes_written ft (take i (new_events w w')) = bytes_read fs (take i (new_events w w'))"
    using flushes_prefix [OF fl] by simp
  assume r
  with fl have t: "flushes fs ft [] (new_events w w') True" by simp
  from t show "last (new_events w w') = (Read fs 10240, Bytes [])" by (rule flushes_last)
  from flushes_bytes [OF t]
  show "bytes_written ft (new_events w w') = bytes_read fs (new_events w w')" by simp
next
  assume a: "progresses ft (os w) \<and> exhausted fs N (os w)"
  then have p1: "\<forall>n d. d \<noteq> [] \<longrightarrow> k_write (os w) n ft d \<noteq> Inr 0"
    and p2: "\<forall>n\<ge>N. k_read (os w) n fs = Inr [] \<or> (\<exists>e. k_read (os w) n fs = Inl e)"
    by (simp_all add: progresses_def exhausted_def)
  have "(N - now w) + 10241 \<le> N + 10241" by simp
  from copy_data_fd_total [OF p1 p2 this]
  show "\<exists>r w'. copy_data_fd (N + 10241) fs ft w = Some (r, w')" .
qed

text \<open>
  Under the kernel \<open>slow_pipe\<close> the chunk \<open>hello\<close> goes out in three writes before the
  second \<open>read\<close>, which ends the copy.
\<close>

theorem copy_data_fd_transfers_witness:
  "progresses 4 (os (world_of slow_pipe))
   \<and> exhausted 3 1 (os (world_of slow_pipe))
   \<and> (\<exists>r w'. copy_data_fd (1 + 10241) 3 4 (world_of slow_pipe) = Some (r, w'))
   \<and> (\<exists>w'. copy_data_fd 5 3 4 (world_of slow_pipe) = Some (True, w')
         \<and> new_events (world_of slow_pipe) w'
             = [(Read 3 10240, Bytes ''hello''), (Write 4 ''hello'', Count 2),
                (Write 4 ''llo'', Count 2), (Write 4 ''o'', Count 1),
                (Read 3 10240, Bytes [])]
         \<and> flushes 3 4 [] (new_events (world_of slow_pipe) w') True
         \<and> bytes_read 3 (new_events (world_of slow_pipe) w') = ''hello''
         \<and> bytes_written 4 (new_events (world_of slow_pipe) w') = ''hello'')"
proof -
  let ?w = "world_of slow_pipe"
  have h1: "progresses 4 (os ?w)"
    by (simp add: progresses_def world_of_def slow_pipe_def)
  have h2: "exhausted 3 1 (os ?w)"
    by (simp add: exhausted_def world_of_def slow_pipe_def)
  have "map_option (\<lambda>(r, w'). (r, new_events ?w w')) (copy_data_fd 5 3 4 ?w)
      = Some (True, [(Read 3 10240, Bytes ''hello''), (Write 4 ''hello'', Count 2),
                (Write 4 ''llo'', Count 2), (Write 4 ''o'', Count 1),
                (Read 3 10240, Bytes [])])"
    by code_simp
  then obtain w' where r: "copy_data_fd 5 3 4 ?w = Some (True, w')"
    and ev: "new_events ?w w'
             = [(Read 3 10240, Bytes ''hello''), (Write 4 ''hello'', Count 2),
                (Write 4 ''llo'', Count 2), (Write 4 ''o'', Count 1),
                (Read 3 10240, Bytes [])]"
    by auto
  note t = copy_data_fd_transfers [of 5 3 4 ?w True w' 1]
  from t h1 h2 have tot: "\<exists>r w'. copy_data_fd (1 + 10241) 3 4 ?w = Some (r, w')" by blast
  from t r have fl: "flushes 3 4 [] (new_events ?w w') True"
    and eq: "bytes_written 4 (new_events ?w w') = bytes_read 3 (new_events ?w w')"
    by blast+
  have br: "bytes_read 3 (new_events ?w w') = ''hello''"
    unfolding ev by (simp add: bytes_read_def chunk_read_def)
  with eq have bw: "bytes_written 4 (new_events ?w w') = ''hello''" by simp
  from r ev fl br bw have "\<exists>w'. copy_data_fd 5 3 4 ?w = Some (True, w')
         \<and> new_events ?w w'
             = [(Read 3 10240, Bytes ''hello''), (Write 4 ''hello'', Count 2),
                (Write 4 ''llo'', Count 2), (Write 4 ''o'', Count 1),
                (Read 3 10240, Bytes [])]
         \<and> flushes 3 4 [] (new_events ?w w') True
         \<and> bytes_read 3 (new_events ?w w') = ''hello''
         \<and> bytes_written 4 (new_events ?w w') = ''hello''"
    by (intro exI [of _ w'] conjI)
  with h1 h2 tot show ?thesis by (intro conjI)
qed

section \<open>copy\_xattrs (C5)\<close>

























end
